theory Spec2Isabelle
  imports Main "HOL-Library.AList"
begin

section \<open>Python values, exceptions and the outside world\<close>

text \<open>
  The repository holds four scripts that translate the records of a question answering
  dataset to Bengali: \<^verbatim>\<open>translate_to_bn.py\<close>, \<^verbatim>\<open>translate_to_bn_v2.py\<close>,
  \<^verbatim>\<open>translate_to_bn_v3.py\<close> and \<^verbatim>\<open>translate_v4.py\<close>. This theory embeds the third, which
  retries failed translations and writes checkpoints, the record mapper of the fourth, and
  \<^verbatim>\<open>save_checkpoint\<close> of the second. A function of the third script keeps its name; the
  functions of the second and of the fourth carry the suffixes \<open>_v2\<close> and \<open>_v4\<close>.

  The scripts handle JSON data: the records of the dataset are dictionaries whose values are
  strings, numbers, \<^verbatim>\<open>None\<close>, lists and dictionaries. A dictionary is an association list
  in insertion order (Python dictionaries keep it). A Python \<^verbatim>\<open>str\<close> is a
  \<^typ>\<open>string\<close>, one \<^typ>\<open>char\<close> for each code point. Floating point values are left
  out.
\<close>

datatype pyval =
    PNone
  | PBool bool
  | PInt int
  | PStr string
  | PList "pyval list"
  | PDict "(string \<times> pyval) list"

text \<open>The exceptions the scripts meet. The last three come from the collaborators outside
  the repository: the translation service, the disk, the dataset hub.\<close>

datatype exn =
    KeyError string
  | TypeError
  | AttributeError
  | ServiceError string
  | OSError string
  | HubError string

datatype level = INFO | WARNING | ERROR

text \<open>A log record is a level and an f-string of the source, kept as the template (one
  constructor for each \<^verbatim>\<open>logging\<close> call) with the values it interpolates.\<close>

datatype logmsg =
    Successfully_authenticated
  | Authentication_error exn
  | Here_is_the_texts pyval
  | Failed_to_translate pyval exn
  | Checkpoint_saved string
  | Starting_dataset_translation_process
  | Dataset_downloaded_to string
  | Error_downloading_dataset exn
  | Progress nat
  | Creating_Hugging_Face_dataset
  | Pushing_to_Hugging_Face_Hub
  | Dataset_successfully_pushed
  | An_error_occurred exn
  | Process_failed exn
  | Translation_error exn

datatype delay = RATE_LIMIT_DELAY | RETRY_DELAY

text \<open>File operations, as \<^verbatim>\<open>save_checkpoint\<close> issues them: \<^verbatim>\<open>os.makedirs\<close>,
  \<^verbatim>\<open>open(path, 'w')\<close> and the writes of \<^verbatim>\<open>json.dump\<close>.\<close>

datatype fs_op =
    Makedirs string
  | Open_w string
  | Write string string

datatype hub_op =
    Push_to_hub string "pyval list"
  | Upload_file string string

text \<open>The world outside the process: the texts handed to the translation service so far,
  the log, the sleeps, the files on disk, the file operations carried out and what was
  sent to the hub.\<close>

record world =
  calls :: "pyval list"
  logged :: "(level \<times> logmsg) list"
  slept :: "delay list"
  files :: "string \<rightharpoonup> string"
  fsops :: "fs_op list"
  hub :: "hub_op list"

text \<open>
  The collaborators, as parameters. \<open>translate env h text\<close> is what
  \<^verbatim>\<open>self.translator.translate(text, dest='bn').text\<close> does when the service has been called
  on the texts \<open>h\<close> before: it raises or it yields the translated text. \<open>json_dump\<close> gives the
  pieces \<^verbatim>\<open>json.dump\<close> writes for a value, in order. \<open>fs_fault\<close> says which file operation
  fails (disk full, storage gone). \<open>hf_hub_download\<close> is the path of the downloaded file,
  and \<open>load_file\<close> what \<^verbatim>\<open>download_dataset\<close> makes of that file (\<^verbatim>\<open>json.load\<close>, the
  conversion of nested lists to strings and \<^verbatim>\<open>Dataset.from_list\<close>): the records as the
  translation loop iterates them. The remaining fields say whether \<^verbatim>\<open>login\<close>, the creation
  of the translator, \<^verbatim>\<open>Dataset.from_list\<close> on the translated records, \<^verbatim>\<open>push_to_hub\<close> and
  \<^verbatim>\<open>upload_file\<close> raise.
\<close>

record env =
  translate :: "pyval list \<Rightarrow> pyval \<Rightarrow> exn + string"
  json_dump :: "pyval \<Rightarrow> string list"
  fs_fault :: "fs_op \<Rightarrow> exn option"
  login_fault :: "exn option"
  hf_hub_download :: "exn + string"
  load_file :: "exn + pyval list"
  create_translator_fault :: "exn option"
  from_list_fault :: "exn option"
  push_fault :: "exn option"
  upload_fault :: "exn option"

subsection \<open>Actions: state passing with exceptions\<close>

type_synonym 'a action = "world \<Rightarrow> (exn + 'a) \<times> world"

definition return_val :: "'a \<Rightarrow> 'a action" where
  "return_val x w = (Inr x, w)"

definition raise_exn :: "exn \<Rightarrow> 'a action" where
  "raise_exn e w = (Inl e, w)"

definition and_then :: "'a action \<Rightarrow> ('a \<Rightarrow> 'b action) \<Rightarrow> 'b action" where
  "and_then m f w = (case m w of (Inl e, w') \<Rightarrow> (Inl e, w') | (Inr x, w') \<Rightarrow> f x w')"

definition try_except :: "'a action \<Rightarrow> (exn \<Rightarrow> 'a action) \<Rightarrow> 'a action" where
  "try_except m h w = (case m w of (Inl e, w') \<Rightarrow> h e w' | (Inr x, w') \<Rightarrow> (Inr x, w'))"

definition lift_result :: "exn + 'a \<Rightarrow> 'a action" where
  "lift_result r w = (r, w)"

definition logging :: "level \<Rightarrow> logmsg \<Rightarrow> unit action" where
  "logging l m w = (Inr (), w\<lparr>logged := logged w @ [(l, m)]\<rparr>)"

definition time_sleep :: "delay \<Rightarrow> unit action" where
  "time_sleep d w = (Inr (), w\<lparr>slept := slept w @ [d]\<rparr>)"

definition translator_translate :: "env \<Rightarrow> pyval \<Rightarrow> string action" where
  "translator_translate env text w =
     (translate env (calls w) text, w\<lparr>calls := calls w @ [text]\<rparr>)"

subsection \<open>Python operations on values\<close>

fun truthy :: "pyval \<Rightarrow> bool" where
  "truthy PNone = False"
| "truthy (PBool b) = b"
| "truthy (PInt i) = (i \<noteq> 0)"
| "truthy (PStr s) = (s \<noteq> [])"
| "truthy (PList xs) = (xs \<noteq> [])"
| "truthy (PDict d) = (d \<noteq> [])"

text \<open>\<^verbatim>\<open>v[key]\<close> for a string key: a missing key raises KeyError, a value that is not a
  dictionary raises TypeError.\<close>

fun getitem :: "pyval \<Rightarrow> string \<Rightarrow> exn + pyval" where
  "getitem (PDict d) k = (case map_of d k of None \<Rightarrow> Inl (KeyError k) | Some v \<Rightarrow> Inr v)"
| "getitem _ k = Inl TypeError"

text \<open>\<^verbatim>\<open>text[:50]\<close>: strings and lists are sliced, a dictionary, a number or \<^verbatim>\<open>None\<close>
  raises.\<close>

fun slice50 :: "pyval \<Rightarrow> exn + pyval" where
  "slice50 (PStr s) = Inr (PStr (take 50 s))"
| "slice50 (PList xs) = Inr (PList (take 50 xs))"
| "slice50 _ = Inl TypeError"

text \<open>\<^verbatim>\<open>for item in v\<close>: a list gives its elements, a string its characters, a
  dictionary its keys; anything else is not iterable.\<close>

fun py_iter :: "pyval \<Rightarrow> exn + pyval list" where
  "py_iter (PList xs) = Inr xs"
| "py_iter (PStr s) = Inr (map (\<lambda>c. PStr [c]) s)"
| "py_iter (PDict d) = Inr (map (\<lambda>kv. PStr (fst kv)) d)"
| "py_iter _ = Inl TypeError"

section \<open>translate\_to\_bn\_v3.py\<close>

definition CHECKPOINT_INTERVAL :: nat where
  "CHECKPOINT_INTERVAL = 100"

definition MAX_RETRIES :: nat where
  "MAX_RETRIES = 3"

text \<open>The loop \<^verbatim>\<open>for attempt in range(MAX_RETRIES)\<close> of \<^verbatim>\<open>translate_text\<close>, from
  \<open>attempt\<close> on. A loop that runs out returns \<^verbatim>\<open>None\<close>.\<close>

function translate_attempts :: "env \<Rightarrow> pyval \<Rightarrow> nat \<Rightarrow> pyval action" where
  "translate_attempts env text attempt =
     (if attempt < MAX_RETRIES then
        try_except
          (and_then (translator_translate env text) (\<lambda>result.
           and_then (time_sleep RATE_LIMIT_DELAY) (\<lambda>_.
           return_val (PStr result))))
          (\<lambda>e. if attempt = MAX_RETRIES - 1 then
                 and_then (lift_result (slice50 text)) (\<lambda>t.
                 and_then (logging INFO (Here_is_the_texts t)) (\<lambda>_.
                 and_then (logging WARNING (Failed_to_translate t e)) (\<lambda>_.
                 return_val text)))
               else
                 and_then (time_sleep RETRY_DELAY) (\<lambda>_.
                 translate_attempts env text (attempt + 1)))
      else return_val PNone)"
  by pat_completeness auto
termination
  by (relation "measure (\<lambda>(env, text, attempt). MAX_RETRIES - attempt)") auto

declare translate_attempts.simps [simp del]

definition translate_text :: "env \<Rightarrow> pyval \<Rightarrow> pyval action" where
  "translate_text env text =
     (if \<not> truthy text then return_val (PStr '''') else translate_attempts env text 0)"

text \<open>The loop of \<^verbatim>\<open>translate_question_decomposition\<close> over the items, with the list
  \<^verbatim>\<open>translated_decomp\<close> built so far. The four scripts have the same loop around their own
  \<^verbatim>\<open>translate_text\<close>, the parameter \<open>tt\<close>. The dictionary display evaluates its values
  from left to right.\<close>

fun decomposition_items ::
  "(pyval \<Rightarrow> pyval action) \<Rightarrow> pyval list \<Rightarrow> pyval list \<Rightarrow> pyval list action" where
  "decomposition_items tt [] translated_decomp = return_val translated_decomp"
| "decomposition_items tt (item # rest) translated_decomp =
     and_then (lift_result (getitem item ''sub_id'')) (\<lambda>sub_id.
     and_then (lift_result (getitem item ''question'')) (\<lambda>q.
     and_then (tt q) (\<lambda>question.
     and_then (lift_result (getitem item ''answer'')) (\<lambda>a.
     and_then (tt a) (\<lambda>answer.
     and_then (lift_result (getitem item ''paragraph_support_title'')) (\<lambda>p.
     and_then (tt p) (\<lambda>paragraph_support_title.
     decomposition_items tt rest
       (translated_decomp @
         [PDict [(''sub_id'', sub_id), (''question'', question), (''answer'', answer),
                 (''paragraph_support_title'', paragraph_support_title)]]))))))))"

definition translate_question_decomposition :: "env \<Rightarrow> pyval \<Rightarrow> pyval action" where
  "translate_question_decomposition env decomp_list =
     (if \<not> truthy decomp_list then return_val (PList [])
      else
        and_then (lift_result (py_iter decomp_list)) (\<lambda>items.
        and_then (decomposition_items (translate_text env) items []) (\<lambda>translated_decomp.
        return_val (PList translated_decomp))))"

subsection \<open>save\_checkpoint\<close>

fun str_nat :: "nat \<Rightarrow> string" where
  "str_nat n =
     (if n < 10 then [''0123456789'' ! n]
      else str_nat (n div 10) @ [''0123456789'' ! (n mod 10)])"

declare str_nat.simps [simp del]

definition checkpoint_dir :: string where
  "checkpoint_dir = ''checkpoints''"

definition checkpoint_path :: "nat \<Rightarrow> string" where
  "checkpoint_path checkpoint_num =
     checkpoint_dir @ ''/'' @ ''checkpoint_'' @ str_nat checkpoint_num @ ''.json''"

text \<open>What a file operation does to the files: \<^verbatim>\<open>open(path, 'w')\<close> creates the file or
  cuts it to length zero, a write appends. Directories are not files.\<close>

fun fs_apply :: "fs_op \<Rightarrow> (string \<rightharpoonup> string) \<Rightarrow> (string \<rightharpoonup> string)" where
  "fs_apply (Makedirs d) fs = fs"
| "fs_apply (Open_w p) fs = fs(p \<mapsto> [])"
| "fs_apply (Write p s) fs = fs(p \<mapsto> (case fs p of None \<Rightarrow> s | Some c \<Rightarrow> c @ s))"

definition fs_do :: "env \<Rightarrow> fs_op \<Rightarrow> unit action" where
  "fs_do env op w =
     (case fs_fault env op of
        Some e \<Rightarrow> (Inl e, w)
      | None \<Rightarrow> (Inr (), w\<lparr>files := fs_apply op (files w), fsops := fsops w @ [op]\<rparr>))"

fun fs_do_all :: "env \<Rightarrow> fs_op list \<Rightarrow> unit action" where
  "fs_do_all env [] = return_val ()"
| "fs_do_all env (op # ops) = and_then (fs_do env op) (\<lambda>_. fs_do_all env ops)"

text \<open>The file operations of one \<^verbatim>\<open>save_checkpoint\<close>, in order.\<close>

definition save_ops :: "env \<Rightarrow> pyval list \<Rightarrow> nat \<Rightarrow> fs_op list" where
  "save_ops env translated_data checkpoint_num =
     [Makedirs checkpoint_dir, Open_w (checkpoint_path checkpoint_num)] @
     map (Write (checkpoint_path checkpoint_num)) (json_dump env (PList translated_data))"

definition save_checkpoint :: "env \<Rightarrow> pyval list \<Rightarrow> nat \<Rightarrow> unit action" where
  "save_checkpoint env translated_data checkpoint_num =
     and_then (fs_do_all env (save_ops env translated_data checkpoint_num)) (\<lambda>_.
     logging INFO (Checkpoint_saved (checkpoint_path checkpoint_num)))"

subsection \<open>translate\_and\_push\_dataset and main\<close>

text \<open>The dictionary display \<^verbatim>\<open>translated_item = {...}\<close> in the body of the translation
  loop.\<close>

definition translated_item :: "env \<Rightarrow> pyval \<Rightarrow> pyval action" where
  "translated_item env item =
     and_then (lift_result (getitem item ''question'')) (\<lambda>v1.
     and_then (translate_text env v1) (\<lambda>question.
     and_then (lift_result (getitem item ''answer'')) (\<lambda>v2.
     and_then (translate_text env v2) (\<lambda>answer.
     and_then (lift_result (getitem item ''context'')) (\<lambda>v3.
     and_then (translate_text env v3) (\<lambda>context.
     and_then (lift_result (getitem item ''previous_question'')) (\<lambda>v4.
     and_then (translate_text env v4) (\<lambda>previous_question.
     and_then (lift_result (getitem item ''previous_answer'')) (\<lambda>v5.
     and_then (translate_text env v5) (\<lambda>previous_answer.
     and_then (lift_result (getitem item ''question_decomposition'')) (\<lambda>v6.
     and_then (translate_question_decomposition env v6) (\<lambda>question_decomposition.
     and_then (lift_result (getitem item ''question_on_last_hop'')) (\<lambda>v7.
     and_then (translate_text env v7) (\<lambda>question_on_last_hop.
     and_then (lift_result (getitem item ''answer_type'')) (\<lambda>answer_type.
     and_then (lift_result (getitem item ''previous_answer_type'')) (\<lambda>previous_answer_type.
     and_then (lift_result (getitem item ''no_of_hops'')) (\<lambda>no_of_hops.
     and_then (lift_result (getitem item ''reasoning_type'')) (\<lambda>reasoning_type.
     return_val (PDict
       [(''question'', question), (''answer'', answer), (''context'', context),
        (''previous_question'', previous_question), (''previous_answer'', previous_answer),
        (''question_decomposition'', question_decomposition),
        (''question_on_last_hop'', question_on_last_hop),
        (''answer_type'', answer_type), (''previous_answer_type'', previous_answer_type),
        (''no_of_hops'', no_of_hops), (''reasoning_type'', reasoning_type)])))))))))))))))))))"

text \<open>The translation loop \<^verbatim>\<open>for idx, item in enumerate(dataset)\<close>, from index \<open>idx\<close> on,
  with the list \<^verbatim>\<open>translated_data\<close> built so far.\<close>

fun translation_loop :: "env \<Rightarrow> nat \<Rightarrow> pyval list \<Rightarrow> pyval list \<Rightarrow> pyval list action" where
  "translation_loop env idx [] translated_data = return_val translated_data"
| "translation_loop env idx (item # rest) translated_data =
     and_then (translated_item env item) (\<lambda>ti.
     and_then
       (if (idx + 1) mod CHECKPOINT_INTERVAL = 0 then
          and_then (logging INFO (Progress (idx + 1))) (\<lambda>_.
          save_checkpoint env (translated_data @ [ti]) (idx + 1))
        else return_val ()) (\<lambda>_.
     translation_loop env (idx + 1) rest (translated_data @ [ti])))"

definition create_translator :: "env \<Rightarrow> unit action" where
  "create_translator env =
     (case create_translator_fault env of None \<Rightarrow> return_val () | Some e \<Rightarrow> raise_exn e)"

definition download_dataset :: "env \<Rightarrow> pyval list action" where
  "download_dataset env =
     try_except
       (and_then (lift_result (hf_hub_download env)) (\<lambda>file_path.
        and_then (logging INFO (Dataset_downloaded_to file_path)) (\<lambda>_.
        lift_result (load_file env))))
       (\<lambda>e. and_then (logging ERROR (Error_downloading_dataset e)) (\<lambda>_. raise_exn e))"

definition dataset_from_list :: "env \<Rightarrow> pyval list \<Rightarrow> unit action" where
  "dataset_from_list env data =
     (case from_list_fault env of None \<Rightarrow> return_val () | Some e \<Rightarrow> raise_exn e)"

definition push_to_hub :: "env \<Rightarrow> string \<Rightarrow> pyval list \<Rightarrow> unit action" where
  "push_to_hub env repo data w =
     (case push_fault env of
        Some e \<Rightarrow> (Inl e, w)
      | None \<Rightarrow> (Inr (), w\<lparr>hub := hub w @ [Push_to_hub repo data]\<rparr>))"

definition upload_file :: "env \<Rightarrow> string \<Rightarrow> string \<Rightarrow> unit action" where
  "upload_file env path_in_repo repo w =
     (case upload_fault env of
        Some e \<Rightarrow> (Inl e, w)
      | None \<Rightarrow> (Inr (), w\<lparr>hub := hub w @ [Upload_file path_in_repo repo]\<rparr>))"

definition translate_and_push_dataset :: "env \<Rightarrow> unit action" where
  "translate_and_push_dataset env =
     try_except
       (and_then (logging INFO Starting_dataset_translation_process) (\<lambda>_.
        and_then (download_dataset env) (\<lambda>dataset.
        and_then (create_translator env) (\<lambda>_.
        and_then (translation_loop env 0 dataset []) (\<lambda>translated_data.
        and_then (logging INFO Creating_Hugging_Face_dataset) (\<lambda>_.
        and_then (dataset_from_list env translated_data) (\<lambda>_.
        and_then (logging INFO Pushing_to_Hugging_Face_Hub) (\<lambda>_.
        and_then (push_to_hub env ''bengali-morehopqa'' translated_data) (\<lambda>_.
        and_then (upload_file env ''README.md'' ''bengali-morehopqa'') (\<lambda>_.
        logging INFO Dataset_successfully_pushed))))))))))
       (\<lambda>e. and_then (logging ERROR (An_error_occurred e)) (\<lambda>_. raise_exn e))"

definition setup_authentication :: "env \<Rightarrow> unit action" where
  "setup_authentication env =
     (case login_fault env of
        None \<Rightarrow> logging INFO Successfully_authenticated
      | Some e \<Rightarrow> and_then (logging ERROR (Authentication_error e)) (\<lambda>_. raise_exn e))"

definition main :: "env \<Rightarrow> unit action" where
  "main env =
     try_except
       (and_then (setup_authentication env) (\<lambda>_. translate_and_push_dataset env))
       (\<lambda>e. and_then (logging ERROR (Process_failed e)) (\<lambda>_. raise_exn e))"

text \<open>The exit status of the process: an exception that leaves \<^verbatim>\<open>main\<close> ends the
  interpreter with status 1.\<close>

definition exit_status :: "(exn + unit) \<times> world \<Rightarrow> nat" where
  "exit_status r = (case fst r of Inl e \<Rightarrow> 1 | Inr u \<Rightarrow> 0)"

section \<open>translate\_to\_bn\_v2.py: save\_checkpoint\<close>

text \<open>\<^verbatim>\<open>save_checkpoint\<close> of \<^verbatim>\<open>translate_to_bn_v2.py\<close>: the same operations on a file whose
  name also carries the time, \<^verbatim>\<open>datetime.now().strftime("%Y%m%d_%H%M%S")\<close>, a parameter
  here.\<close>

definition checkpoint_path_v2 :: "nat \<Rightarrow> string \<Rightarrow> string" where
  "checkpoint_path_v2 checkpoint_num timestamp =
     checkpoint_dir @ ''/'' @ ''checkpoint_'' @ str_nat checkpoint_num @ ''_'' @ timestamp @ ''.json''"

definition save_ops_v2 :: "env \<Rightarrow> string \<Rightarrow> pyval list \<Rightarrow> nat \<Rightarrow> fs_op list" where
  "save_ops_v2 env timestamp translated_data checkpoint_num =
     [Makedirs checkpoint_dir, Open_w (checkpoint_path_v2 checkpoint_num timestamp)] @
     map (Write (checkpoint_path_v2 checkpoint_num timestamp))
       (json_dump env (PList translated_data))"

definition save_checkpoint_v2 :: "env \<Rightarrow> string \<Rightarrow> pyval list \<Rightarrow> nat \<Rightarrow> unit action" where
  "save_checkpoint_v2 env timestamp translated_data checkpoint_num =
     and_then (fs_do_all env (save_ops_v2 env timestamp translated_data checkpoint_num)) (\<lambda>_.
     logging INFO (Checkpoint_saved (checkpoint_path_v2 checkpoint_num timestamp)))"

section \<open>translate\_v4.py\<close>

definition translate_text_v4 :: "env \<Rightarrow> pyval \<Rightarrow> pyval action" where
  "translate_text_v4 env text =
     try_except
       (and_then (translator_translate env text) (\<lambda>result. return_val (PStr result)))
       (\<lambda>e. and_then (logging ERROR (Translation_error e)) (\<lambda>_. return_val text))"

text \<open>The list comprehension \<^verbatim>\<open>[self.translate_text(item) for item in items]\<close>.\<close>

fun translate_each_v4 :: "env \<Rightarrow> pyval list \<Rightarrow> pyval list action" where
  "translate_each_v4 env [] = return_val []"
| "translate_each_v4 env (item # rest) =
     and_then (translate_text_v4 env item) (\<lambda>y.
     and_then (translate_each_v4 env rest) (\<lambda>ys.
     return_val (y # ys)))"

definition translate_list_v4 :: "env \<Rightarrow> pyval \<Rightarrow> pyval action" where
  "translate_list_v4 env items =
     and_then (lift_result (py_iter items)) (\<lambda>xs.
     and_then (translate_each_v4 env xs) (\<lambda>ys.
     return_val (PList ys)))"

definition translate_question_decomposition_v4 :: "env \<Rightarrow> pyval \<Rightarrow> pyval action" where
  "translate_question_decomposition_v4 env decomp_list =
     and_then (lift_result (py_iter decomp_list)) (\<lambda>items.
     and_then (decomposition_items (translate_text_v4 env) items []) (\<lambda>translated_decomp.
     return_val (PList translated_decomp)))"

definition translate_context_v4 :: "env \<Rightarrow> pyval \<Rightarrow> pyval action" where
  "translate_context_v4 env context =
     and_then (lift_result (getitem context ''title'')) (\<lambda>t.
     and_then (translate_text_v4 env t) (\<lambda>title.
     and_then (lift_result (getitem context ''paragraphs'')) (\<lambda>ps.
     and_then (translate_list_v4 env ps) (\<lambda>paragraphs.
     return_val (PDict [(''title'', title), (''paragraphs'', paragraphs)])))))"

fun is_str :: "pyval \<Rightarrow> bool" where
  "is_str (PStr s) = True"
| "is_str _ = False"

text \<open>The loop \<^verbatim>\<open>for key, value in item.items()\<close> of \<^verbatim>\<open>translate_item\<close>;
  \<^verbatim>\<open>translated_item[key] = ...\<close> is \<^const>\<open>AList.update\<close>.\<close>

fun item_fields_v4 ::
  "env \<Rightarrow> (string \<times> pyval) list \<Rightarrow> (string \<times> pyval) list \<Rightarrow> (string \<times> pyval) list action" where
  "item_fields_v4 env [] translated = return_val translated"
| "item_fields_v4 env ((key, val) # rest) translated =
     and_then
       (if key = ''question_decomposition'' then translate_question_decomposition_v4 env val
        else if key = ''context'' then translate_context_v4 env val
        else if is_str val then translate_text_v4 env val
        else return_val val) (\<lambda>v.
     item_fields_v4 env rest (AList.update key v translated))"

definition translate_item_v4 :: "env \<Rightarrow> pyval \<Rightarrow> pyval action" where
  "translate_item_v4 env item =
     (case item of
        PDict d \<Rightarrow> and_then (item_fields_v4 env d []) (\<lambda>translated. return_val (PDict translated))
      | _ \<Rightarrow> raise_exn AttributeError)"

section \<open>Stand-ins for the collaborators and sample data\<close>

text \<open>
  The examples run the scripts in an empty world, with a translation service that answers
  every string with the same string behind \<^verbatim>\<open>bn \<close> and refuses anything else, whatever
  was asked before, or with one that is down for its first \<open>n\<close> calls. In \<open>stub_env\<close>
  nothing fails; its \<open>json_dump\<close> writes an opening and a closing bracket for any value, which
  stands for the pieces that \<^verbatim>\<open>json.dump\<close> writes.
\<close>

definition world0 :: world where
  "world0 = \<lparr>calls = [], logged = [], slept = [], files = Map.empty, fsops = [], hub = []\<rparr>"

definition stub_translate :: "pyval list \<Rightarrow> pyval \<Rightarrow> exn + string" where
  "stub_translate h text = (case text of PStr s \<Rightarrow> Inr (''bn '' @ s) | _ \<Rightarrow> Inl TypeError)"

definition stub_env :: env where
  "stub_env =
     \<lparr>translate = stub_translate, json_dump = (\<lambda>v. [''['', '']'']), fs_fault = (\<lambda>op. None),
      login_fault = None, hf_hub_download = Inr ''with_human_verification.json'',
      load_file = Inr [], create_translator_fault = None, from_list_fault = None,
      push_fault = None, upload_fault = None\<rparr>"

definition flaky_translate :: "nat \<Rightarrow> pyval list \<Rightarrow> pyval \<Rightarrow> exn + string" where
  "flaky_translate n h text =
     (if length h < n then Inl (ServiceError ''timeout'') else stub_translate h text)"

text \<open>Sample records: the scenario of the specification with one more field; a record
  with a string-typed and a number-typed metadata field; a sub-item and a context; a record
  with all eleven fields and what \<open>stub_env\<close> makes of it; a record with all eleven fields
  and nothing to translate; a record that lacks the field \<^verbatim>\<open>answer\<close>.\<close>

definition king_record :: "(string \<times> pyval) list" where
  "king_record =
     [(''question'', PStr ''Who is king?''), (''answer'', PStr ''Bob''), (''no_of_hops'', PInt 2),
      (''source'', PStr ''wiki'')]"

definition typed_record :: "(string \<times> pyval) list" where
  "typed_record = [(''answer_type'', PStr ''person''), (''no_of_hops'', PInt 2)]"

definition sub_item_q1 :: pyval where
  "sub_item_q1 =
     PDict [(''sub_id'', PStr ''q1''), (''question'', PStr ''X''), (''answer'', PStr ''Y''),
            (''paragraph_support_title'', PStr ''Z'')]"

definition context_T :: "(string \<times> pyval) list" where
  "context_T = [(''title'', PStr ''T''), (''paragraphs'', PList [PStr ''p1'', PStr ''p2''])]"

definition full_record :: "(string \<times> pyval) list" where
  "full_record =
     [(''question'', PStr ''Who is king?''), (''answer'', PStr ''Bob''),
      (''context'', PStr ''Bob is king.''), (''previous_question'', PStr []),
      (''previous_answer'', PNone), (''question_decomposition'', PList [sub_item_q1]),
      (''question_on_last_hop'', PStr ''Who?''), (''answer_type'', PStr ''person''),
      (''previous_answer_type'', PNone), (''no_of_hops'', PInt 2),
      (''reasoning_type'', PStr ''Commonsense'')]"

definition full_record_bn :: pyval where
  "full_record_bn = PDict
       [(''question'', PStr ''bn Who is king?''), (''answer'', PStr ''bn Bob''),
        (''context'', PStr ''bn Bob is king.''), (''previous_question'', PStr []),
        (''previous_answer'', PStr []),
        (''question_decomposition'',
           PList [PDict [(''sub_id'', PStr ''q1''), (''question'', PStr ''bn X''),
                         (''answer'', PStr ''bn Y''), (''paragraph_support_title'', PStr ''bn Z'')]]),
        (''question_on_last_hop'', PStr ''bn Who?''), (''answer_type'', PStr ''person''),
        (''previous_answer_type'', PNone), (''no_of_hops'', PInt 2),
        (''reasoning_type'', PStr ''Commonsense'')]"

definition blank_record :: pyval where
  "blank_record = PDict
     [(''question'', PStr []), (''answer'', PStr []), (''context'', PStr []),
      (''previous_question'', PStr []), (''previous_answer'', PStr []),
      (''question_decomposition'', PList []), (''question_on_last_hop'', PStr []),
      (''answer_type'', PNone), (''previous_answer_type'', PNone), (''no_of_hops'', PInt 0),
      (''reasoning_type'', PNone)]"

definition no_answer_record :: pyval where
  "no_answer_record = PDict [(''question'', PStr [])]"

text \<open>Sample runs: a hundred blank records; a full disk and a hundred and one records;
  a record without \<^verbatim>\<open>answer\<close> at index 0 and at index 1; a hundred and one records,
  started on a disk that holds a checkpoint of index 100.\<close>

definition hundred_blank_env :: env where
  "hundred_blank_env = stub_env\<lparr>load_file := Inr (replicate 100 blank_record)\<rparr>"

definition no_disk_env :: env where
  "no_disk_env = stub_env
     \<lparr>fs_fault := (\<lambda>op. Some (OSError ''No space left on device'')),
      load_file := Inr (replicate 100 blank_record @ [PDict full_record])\<rparr>"

definition bad_first_env :: env where
  "bad_first_env = stub_env\<lparr>load_file := Inr [no_answer_record]\<rparr>"

definition bad_second_env :: env where
  "bad_second_env = stub_env\<lparr>load_file := Inr [blank_record, no_answer_record]\<rparr>"

definition resume_env :: env where
  "resume_env = stub_env\<lparr>load_file := Inr (PDict full_record # replicate 100 blank_record)\<rparr>"

definition checkpointed_world :: world where
  "checkpointed_world = world0\<lparr>files := [checkpoint_path 100 \<mapsto> ''[]'']\<rparr>"

section \<open>Notions used to state the properties\<close>

subsection \<open>Translated leaves\<close>

text \<open>\<open>returns tt v\<close>: in every world the call \<open>tt v\<close> returns a value, and the service was
  handed nothing but \<open>v\<close> meanwhile. \<open>sub_item_translated tt item out\<close>: \<open>out\<close> is the
  dictionary of \<open>sub_id\<close> of \<open>item\<close>, unchanged, and of the results of \<open>tt\<close> on the three
  text fields of \<open>item\<close>.\<close>

definition returns :: "(pyval \<Rightarrow> pyval action) \<Rightarrow> pyval \<Rightarrow> bool" where
  "returns tt v = (\<forall>w. \<exists>y n. fst (tt v w) = Inr y \<and> calls (snd (tt v w)) = calls w @ replicate n v)"

definition sub_item_translated :: "(pyval \<Rightarrow> pyval action) \<Rightarrow> pyval \<Rightarrow> pyval \<Rightarrow> bool" where
  "sub_item_translated tt item out =
     (\<exists>sub_id q a p q' a' p' w1 w2 w3.
        getitem item ''sub_id'' = Inr sub_id \<and>
        getitem item ''question'' = Inr q \<and> fst (tt q w1) = Inr q' \<and>
        getitem item ''answer'' = Inr a \<and> fst (tt a w2) = Inr a' \<and>
        getitem item ''paragraph_support_title'' = Inr p \<and> fst (tt p w3) = Inr p' \<and>
        out = PDict [(''sub_id'', sub_id), (''question'', q'), (''answer'', a'),
                     (''paragraph_support_title'', p')])"

definition sub_item_leaves :: "pyval \<Rightarrow> pyval set" where
  "sub_item_leaves item =
     {v. getitem item ''question'' = Inr v \<or> getitem item ''answer'' = Inr v \<or>
         getitem item ''paragraph_support_title'' = Inr v}"

definition well_formed_sub_item :: "(pyval \<Rightarrow> pyval action) \<Rightarrow> pyval \<Rightarrow> bool" where
  "well_formed_sub_item tt item =
     (\<exists>sub_id q a p.
        getitem item ''sub_id'' = Inr sub_id \<and>
        getitem item ''question'' = Inr q \<and> returns tt q \<and>
        getitem item ''answer'' = Inr a \<and> returns tt a \<and>
        getitem item ''paragraph_support_title'' = Inr p \<and> returns tt p)"

text \<open>A text leaf is a string or an empty value; \<open>sub_item_with ok item\<close>: the item has
  the four fields, and \<open>ok\<close> holds of its question, answer and
  paragraph\_support\_title.\<close>

definition text_leaf :: "pyval \<Rightarrow> bool" where
  "text_leaf v = (is_str v \<or> \<not> truthy v)"

definition sub_item_with :: "(pyval \<Rightarrow> bool) \<Rightarrow> pyval \<Rightarrow> bool" where
  "sub_item_with ok item =
     (case (getitem item ''sub_id'', getitem item ''question'', getitem item ''answer'',
            getitem item ''paragraph_support_title'') of
        (Inr sub_id, Inr q, Inr a, Inr p) \<Rightarrow> ok q \<and> ok a \<and> ok p
      | _ \<Rightarrow> False)"

text \<open>\<open>answer_v4 env h v\<close>: what \<^verbatim>\<open>translate_text\<close> of \<^verbatim>\<open>translate_v4.py\<close> returns for \<open>v\<close>
  when the service has been called on \<open>h\<close> before: the translation, or \<open>v\<close> itself when the
  service raises.\<close>

definition answer_v4 :: "env \<Rightarrow> pyval list \<Rightarrow> pyval \<Rightarrow> pyval" where
  "answer_v4 env h v = (case translate env h v of Inl e \<Rightarrow> v | Inr r \<Rightarrow> PStr r)"

text \<open>The four metadata fields, and the eleven fields that the translation loop of
  \<^verbatim>\<open>translate_to_bn_v3.py\<close> reads from each record.\<close>

definition metadata_fields :: "string list" where
  "metadata_fields = [''answer_type'', ''previous_answer_type'', ''no_of_hops'', ''reasoning_type'']"

definition required_fields :: "string list" where
  "required_fields =
     [''question'', ''answer'', ''context'', ''previous_question'', ''previous_answer'',
      ''question_decomposition'', ''question_on_last_hop'', ''answer_type'',
      ''previous_answer_type'', ''no_of_hops'', ''reasoning_type'']"

subsection \<open>What an action leaves as it is\<close>

text \<open>\<open>keeps f m\<close>: the action \<open>m\<close> never changes the part \<open>f\<close> of the world.
  \<open>outside_translation f\<close>: the part \<open>f\<close> is none of the service calls, the log and the
  sleeps.\<close>

definition keeps :: "(world \<Rightarrow> 'b) \<Rightarrow> 'a action \<Rightarrow> bool" where
  "keeps f m = (\<forall>w. f (snd (m w)) = f w)"

definition outside_translation :: "(world \<Rightarrow> 'b) \<Rightarrow> bool" where
  "outside_translation f =
     (\<forall>w c l s. f (w\<lparr>calls := c\<rparr>) = f w \<and> f (w\<lparr>logged := l\<rparr>) = f w \<and> f (w\<lparr>slept := s\<rparr>) = f w)"

subsection \<open>The run\<close>

text \<open>\<open>checkpoint_indices idx n\<close>: the multiples of \<open>CHECKPOINT_INTERVAL\<close> among the \<open>n\<close>
  numbers after \<open>idx\<close>. \<open>authenticated w\<close> and \<open>started file_path w\<close>: the world \<open>w\<close> after
  the log lines that precede the run and the translation loop.\<close>

definition checkpoint_indices :: "nat \<Rightarrow> nat \<Rightarrow> nat list" where
  "checkpoint_indices idx n = filter (\<lambda>m. m mod CHECKPOINT_INTERVAL = 0) [idx + 1 ..< idx + n + 1]"

definition authenticated :: "world \<Rightarrow> world" where
  "authenticated w = w\<lparr>logged := logged w @ [(INFO, Successfully_authenticated)]\<rparr>"

definition started :: "string \<Rightarrow> world \<Rightarrow> world" where
  "started file_path w =
     w\<lparr>logged := logged w @ [(INFO, Starting_dataset_translation_process),
                               (INFO, Dataset_downloaded_to file_path)]\<rparr>"

text \<open>The files on disk when the process dies after the first \<open>k\<close> of the file operations
  \<open>ops\<close>.\<close>

definition files_after_crash ::
  "nat \<Rightarrow> fs_op list \<Rightarrow> (string \<rightharpoonup> string) \<Rightarrow> (string \<rightharpoonup> string)" where
  "files_after_crash k ops fs = foldl (\<lambda>fs op. fs_apply op fs) fs (take k ops)"

subsection \<open>Runs from two worlds\<close>

text \<open>\<open>agrees R m\<close>: started in two worlds related by \<open>R\<close>, the action \<open>m\<close> has the same
  outcome and ends in two worlds related by \<open>R\<close>. \<open>effects_agree R env\<close>: the effects on the
  outside world do. Two relations: the worlds are the same but for the files; the worlds
  have gained the same calls, log lines, sleeps, file operations and pushes since \<open>a\<close> and
  \<open>b\<close>.\<close>

definition agrees :: "(world \<Rightarrow> world \<Rightarrow> bool) \<Rightarrow> 'a action \<Rightarrow> bool" where
  "agrees R m =
     (\<forall>w1 w2. R w1 w2 \<longrightarrow> fst (m w1) = fst (m w2) \<and> R (snd (m w1)) (snd (m w2)))"

definition effects_agree :: "(world \<Rightarrow> world \<Rightarrow> bool) \<Rightarrow> env \<Rightarrow> bool" where
  "effects_agree R env =
     ((\<forall>l m. agrees R (logging l m)) \<and> (\<forall>d. agrees R (time_sleep d)) \<and>
      (\<forall>t. agrees R (translator_translate env t)) \<and> (\<forall>op. agrees R (fs_do env op)) \<and>
      (\<forall>repo data. agrees R (push_to_hub env repo data)) \<and>
      (\<forall>p repo. agrees R (upload_file env p repo)))"

definition same_but_files :: "world \<Rightarrow> world \<Rightarrow> bool" where
  "same_but_files w1 w2 =
     (calls w1 = calls w2 \<and> logged w1 = logged w2 \<and> slept w1 = slept w2 \<and>
      fsops w1 = fsops w2 \<and> hub w1 = hub w2)"

definition same_since :: "world \<Rightarrow> world \<Rightarrow> world \<Rightarrow> world \<Rightarrow> bool" where
  "same_since a b w1 w2 =
     (\<exists>c l s f h.
        calls w1 = calls a @ c \<and> calls w2 = calls b @ c \<and>
        logged w1 = logged a @ l \<and> logged w2 = logged b @ l \<and>
        slept w1 = slept a @ s \<and> slept w2 = slept b @ s \<and>
        fsops w1 = fsops a @ f \<and> fsops w2 = fsops b @ f \<and>
        hub w1 = hub a @ h \<and> hub w2 = hub b @ h)"

section \<open>The field translator: translate\_text\<close>

lemmas act_defs = return_val_def raise_exn_def and_then_def try_except_def lift_result_def
  logging_def time_sleep_def translator_translate_def

lemmas eval_defs = act_defs stub_env_def stub_translate_def world0_def flaky_translate_def

lemma translate_attempts_unroll:
  "translate_attempts env text 0 w =
     (case translate env (calls w) text of
        Inr r \<Rightarrow> (Inr (PStr r), w\<lparr>calls := calls w @ [text], slept := slept w @ [RATE_LIMIT_DELAY]\<rparr>)
      | Inl e0 \<Rightarrow>
     (case translate env (calls w @ [text]) text of
        Inr r \<Rightarrow> (Inr (PStr r),
           w\<lparr>calls := calls w @ [text, text], slept := slept w @ [RETRY_DELAY, RATE_LIMIT_DELAY]\<rparr>)
      | Inl e1 \<Rightarrow>
     (case translate env (calls w @ [text, text]) text of
        Inr r \<Rightarrow> (Inr (PStr r),
           w\<lparr>calls := calls w @ [text, text, text],
             slept := slept w @ [RETRY_DELAY, RETRY_DELAY, RATE_LIMIT_DELAY]\<rparr>)
      | Inl e2 \<Rightarrow>
     (case slice50 text of
        Inl e \<Rightarrow> (Inl e, w\<lparr>calls := calls w @ [text, text, text],
             slept := slept w @ [RETRY_DELAY, RETRY_DELAY]\<rparr>)
      | Inr t \<Rightarrow> (Inr text,
           w\<lparr>calls := calls w @ [text, text, text],
             slept := slept w @ [RETRY_DELAY, RETRY_DELAY],
             logged := logged w @ [(INFO, Here_is_the_texts t), (WARNING, Failed_to_translate t e2)]\<rparr>)))))"
  by (simp add: translate_attempts.simps[of _ _ 0] translate_attempts.simps[of _ _ "Suc 0"]
      translate_attempts.simps[of _ _ "Suc (Suc 0)"] MAX_RETRIES_def act_defs
      split: sum.splits)

lemma translate_text_falsy_eq: "\<not> truthy text \<Longrightarrow> translate_text env text w = (Inr (PStr []), w)"
  by (simp add: translate_text_def return_val_def)

lemma translate_text_stub:
  "s \<noteq> [] \<Longrightarrow> translate_text stub_env (PStr s) w =
     (Inr (PStr (''bn '' @ s)), w\<lparr>calls := calls w @ [PStr s], slept := slept w @ [RATE_LIMIT_DELAY]\<rparr>)"
  by (simp add: translate_text_def translate_attempts_unroll stub_env_def stub_translate_def)

lemma translate_text_answered:
  "translate env = stub_translate \<Longrightarrow> s \<noteq> [] \<Longrightarrow>
   translate_text env (PStr s) w =
     (Inr (PStr (''bn '' @ s)),
      w\<lparr>calls := calls w @ [PStr s], slept := slept w @ [RATE_LIMIT_DELAY]\<rparr>)"
  by (simp add: translate_text_def translate_attempts_unroll stub_translate_def)

lemma translate_text_v4_eq:
  "translate_text_v4 env text w =
     (case translate env (calls w) text of
        Inr r \<Rightarrow> (Inr (PStr r), w\<lparr>calls := calls w @ [text]\<rparr>)
      | Inl e \<Rightarrow> (Inr text, w\<lparr>calls := calls w @ [text],
                               logged := logged w @ [(ERROR, Translation_error e)]\<rparr>))"
  by (simp add: translate_text_v4_def act_defs split: sum.splits)

lemma translate_text_v4_answer:
  "fst (translate_text_v4 env v w) = Inr (answer_v4 env (calls w) v) \<and>
   calls (snd (translate_text_v4 env v w)) = calls w @ [v]"
  by (simp add: translate_text_v4_eq answer_v4_def split: sum.splits)



text \<open>
  Claim C6, as amended. \<^verbatim>\<open>translate_text\<close> of \<^verbatim>\<open>translate_to_bn_v3.py\<close> returns the empty
  string for every falsy input and leaves the world as it is: no call of the service, no sleep,
  no log. \<^verbatim>\<open>translate_text\<close> of \<^verbatim>\<open>translate_v4.py\<close> has no such guard: it hands every input,
  falsy or not, to the service once.
\<close>

theorem translate_text_falsy:
  "(\<not> truthy text \<longrightarrow> translate_text env text w = (Inr (PStr []), w)) \<and>
   calls (snd (translate_text_v4 env text w)) = calls w @ [text]"
  by (simp add: translate_text_falsy_eq translate_text_v4_answer)

theorem translate_text_falsy_witness:
  "\<not> truthy (PStr []) \<and> translate_text stub_env (PStr []) world0 = (Inr (PStr []), world0) \<and>
   \<not> truthy PNone \<and> translate_text stub_env PNone world0 = (Inr (PStr []), world0)"
  using translate_text_falsy [of "PStr []" stub_env world0 ]
    translate_text_falsy [of PNone stub_env world0]
  by simp

theorem translate_text_v4_calls_service_on_empty:
  "\<not> truthy (PStr []) \<and>
   calls world0 = [] \<and>
   calls (snd (translate_text_v4 stub_env (PStr []) world0)) = [PStr []]"
  by (simp add: translate_text_v4_eq eval_defs)

section \<open>The structural mapper\<close>

subsection \<open>The decomposition list and the context\<close>

lemma returnsD:
  assumes "returns tt v"
  obtains y n where "tt v w = (Inr y, snd (tt v w))" "calls (snd (tt v w)) = calls w @ replicate n v"
  using assms unfolding returns_def by (metis prod.collapse)

lemma decomposition_items_shape:
  assumes "\<forall>item\<in>set items. well_formed_sub_item tt item"
  shows "\<exists>outs w' cs. decomposition_items tt items acc w = (Inr (acc @ outs), w') \<and>
           length outs = length items \<and>
           (\<forall>i<length items. sub_item_translated tt (items ! i) (outs ! i)) \<and>
           calls w' = calls w @ cs \<and> set cs \<subseteq> (\<Union>item\<in>set items. sub_item_leaves item)"
  using assms
proof (induction items arbitrary: acc w)
  case Nil
  then show ?case by (simp add: return_val_def)
next
  case (Cons item rest)
  from Cons.prems obtain sub_id q a p where g:
    "getitem item ''sub_id'' = Inr sub_id"
    "getitem item ''question'' = Inr q" "returns tt q"
    "getitem item ''answer'' = Inr a" "returns tt a"
    "getitem item ''paragraph_support_title'' = Inr p" "returns tt p"
    unfolding well_formed_sub_item_def by auto
  obtain q' n1 where q: "tt q w = (Inr q', snd (tt q w))"
      "calls (snd (tt q w)) = calls w @ replicate n1 q"
    using returnsD[OF g(3)] by blast
  define w1 where "w1 = snd (tt q w)"
  obtain a' n2 where a: "tt a w1 = (Inr a', snd (tt a w1))"
      "calls (snd (tt a w1)) = calls w1 @ replicate n2 a"
    using returnsD[OF g(5)] by blast
  define w2 where "w2 = snd (tt a w1)"
  obtain p' n3 where p: "tt p w2 = (Inr p', snd (tt p w2))"
      "calls (snd (tt p w2)) = calls w2 @ replicate n3 p"
    using returnsD[OF g(7)] by blast
  define w3 where "w3 = snd (tt p w2)"
  define out where "out = PDict [(''sub_id'', sub_id), (''question'', q'), (''answer'', a'),
                     (''paragraph_support_title'', p')]"
  have step: "decomposition_items tt (item # rest) acc w =
      decomposition_items tt rest (acc @ [out]) w3"
    using g q(1) a(1) p(1) unfolding w1_def[symmetric] w2_def[symmetric] w3_def[symmetric]
    by (simp add: and_then_def lift_result_def out_def)
  from Cons.prems have "\<forall>item\<in>set rest. well_formed_sub_item tt item" by simp
  from Cons.IH[OF this, of "acc @ [out]" w3]
  obtain outs w' cs where ih:
    "decomposition_items tt rest (acc @ [out]) w3 = (Inr ((acc @ [out]) @ outs), w')"
    "length outs = length rest"
    "\<forall>i<length rest. sub_item_translated tt (rest ! i) (outs ! i)"
    "calls w' = calls w3 @ cs" "set cs \<subseteq> (\<Union>item\<in>set rest. sub_item_leaves item)"
    by blast
  have o: "sub_item_translated tt item out"
    unfolding sub_item_translated_def out_def
    using g q(1) a(1) p(1) by (metis fst_conv)
  have c3: "calls w3 = calls w @ (replicate n1 q @ replicate n2 a @ replicate n3 p)"
    using q(2) a(2) p(2) by (simp add: w1_def w2_def w3_def)
  have leaves: "set (replicate n1 q @ replicate n2 a @ replicate n3 p) \<subseteq> sub_item_leaves item"
    using g by (auto simp: sub_item_leaves_def)
  show ?case
  proof (intro exI conjI)
    show "decomposition_items tt (item # rest) acc w = (Inr (acc @ (out # outs)), w')"
      using step ih(1) by simp
    show "length (out # outs) = length (item # rest)" using ih(2) by simp
    show "\<forall>i<length (item # rest). sub_item_translated tt ((item # rest) ! i) ((out # outs) ! i)"
      using o ih(3) by (auto simp: nth_Cons split: nat.splits)
    show "calls w' = calls w @ ((replicate n1 q @ replicate n2 a @ replicate n3 p) @ cs)"
      using ih(4) c3 by simp
    show "set ((replicate n1 q @ replicate n2 a @ replicate n3 p) @ cs)
            \<subseteq> (\<Union>item\<in>set (item # rest). sub_item_leaves item)"
      using leaves ih(5) by auto
  qed
qed

lemma returns_translate_text_v4: "returns (translate_text_v4 env) v"
  unfolding returns_def
proof (intro allI)
  fix w
  show "\<exists>y n. fst (translate_text_v4 env v w) = Inr y \<and>
      calls (snd (translate_text_v4 env v w)) = calls w @ replicate n v"
    by (cases "translate env (calls w) v") (auto simp: translate_text_v4_eq intro: exI[of _ 1])
qed

lemma returns_translate_text:
  assumes "is_str v \<or> \<not> truthy v"
  shows "returns (translate_text env) v"
  unfolding returns_def
proof (intro allI)
  fix w
  show "\<exists>y n. fst (translate_text env v w) = Inr y \<and>
      calls (snd (translate_text env v w)) = calls w @ replicate n v"
  proof (cases "truthy v")
    case False
    then show ?thesis by (intro exI[of _ "PStr []"] exI[of _ 0]) (simp add: translate_text_def return_val_def)
  next
    case True
    with assms obtain s where v: "v = PStr s" by (cases v) auto
    consider (a) r where "translate env (calls w) v = Inr r"
      | (b) e r where "translate env (calls w) v = Inl e" "translate env (calls w @ [v]) v = Inr r"
      | (c) e e' r where "translate env (calls w) v = Inl e" "translate env (calls w @ [v]) v = Inl e'"
           "translate env (calls w @ [v, v]) v = Inr r"
      | (d) e e' e'' where "translate env (calls w) v = Inl e" "translate env (calls w @ [v]) v = Inl e'"
           "translate env (calls w @ [v, v]) v = Inl e''"
      by (metis sum.exhaust)
    then show ?thesis
    proof cases
      case a
      with True show ?thesis
        by (intro exI[of _ "PStr r"] exI[of _ 1]) (simp add: translate_text_def translate_attempts_unroll)
    next
      case b
      with True show ?thesis
        by (intro exI[of _ "PStr r"] exI[of _ 2]) (simp add: translate_text_def translate_attempts_unroll numeral_2_eq_2)
    next
      case c
      with True show ?thesis
        by (intro exI[of _ "PStr r"] exI[of _ 3]) (simp add: translate_text_def translate_attempts_unroll numeral_3_eq_3)
    next
      case d
      with True v show ?thesis
        by (intro exI[of _ "v"] exI[of _ 3]) (simp add: translate_text_def translate_attempts_unroll numeral_3_eq_3)
    qed
  qed
qed

lemma sub_item_with_well_formed:
  assumes "sub_item_with ok item" "\<And>v. ok v \<Longrightarrow> returns tt v"
  shows "well_formed_sub_item tt item"
  using assms unfolding sub_item_with_def well_formed_sub_item_def
  by (auto split: sum.splits)

lemma translate_question_decomposition_shape:
  assumes "\<forall>item\<in>set items. sub_item_with text_leaf item"
  shows "\<exists>outs w' cs.
           translate_question_decomposition env (PList items) w = (Inr (PList outs), w') \<and>
           length outs = length items \<and>
           (\<forall>i<length items. sub_item_translated (translate_text env) (items ! i) (outs ! i)) \<and>
           calls w' = calls w @ cs \<and> set cs \<subseteq> (\<Union>item\<in>set items. sub_item_leaves item)"
proof (cases "items = []")
  case True
  then show ?thesis
    by (simp add: translate_question_decomposition_def return_val_def)
next
  case False
  have "\<forall>item\<in>set items. well_formed_sub_item (translate_text env) item"
    using assms by (auto intro!: sub_item_with_well_formed returns_translate_text simp: text_leaf_def)
  from decomposition_items_shape[OF this, of "[]" w]
  obtain outs w' cs where
    "decomposition_items (translate_text env) items [] w = (Inr outs, w')"
    "length outs = length items"
    "\<forall>i<length items. sub_item_translated (translate_text env) (items ! i) (outs ! i)"
    "calls w' = calls w @ cs" "set cs \<subseteq> (\<Union>item\<in>set items. sub_item_leaves item)"
    by auto
  with False show ?thesis
    by (simp add: translate_question_decomposition_def and_then_def lift_result_def return_val_def)
qed

lemma translate_question_decomposition_v4_shape:
  assumes "\<forall>item\<in>set items. sub_item_with (\<lambda>v. True) item"
  shows "\<exists>outs w' cs.
           translate_question_decomposition_v4 env (PList items) w = (Inr (PList outs), w') \<and>
           length outs = length items \<and>
           (\<forall>i<length items. sub_item_translated (translate_text_v4 env) (items ! i) (outs ! i)) \<and>
           calls w' = calls w @ cs \<and> set cs \<subseteq> (\<Union>item\<in>set items. sub_item_leaves item)"
proof -
  have "\<forall>item\<in>set items. well_formed_sub_item (translate_text_v4 env) item"
    using assms by (auto intro!: sub_item_with_well_formed returns_translate_text_v4)
  from decomposition_items_shape[OF this, of "[]" w]
  obtain outs w' cs where
    "decomposition_items (translate_text_v4 env) items [] w = (Inr outs, w')"
    "length outs = length items"
    "\<forall>i<length items. sub_item_translated (translate_text_v4 env) (items ! i) (outs ! i)"
    "calls w' = calls w @ cs" "set cs \<subseteq> (\<Union>item\<in>set items. sub_item_leaves item)"
    by auto
  then show ?thesis
    by (simp add: translate_question_decomposition_v4_def and_then_def lift_result_def return_val_def)
qed

lemma translate_each_v4_eq:
  "\<exists>ys w'. translate_each_v4 env xs w = (Inr ys, w') \<and> length ys = length xs \<and>
     calls w' = calls w @ xs \<and>
     (\<forall>i<length xs. ys ! i = answer_v4 env (calls w @ take i xs) (xs ! i))"
proof (induction xs arbitrary: w)
  case Nil
  then show ?case by (simp add: return_val_def)
next
  case (Cons x xs)
  define w1 where "w1 = snd (translate_text_v4 env x w)"
  have x: "translate_text_v4 env x w = (Inr (answer_v4 env (calls w) x), w1)"
    "calls w1 = calls w @ [x]"
    using translate_text_v4_answer[of env x w] by (simp_all add: w1_def prod_eq_iff)
  from Cons.IH[of w1] obtain ys w' where ih:
    "translate_each_v4 env xs w1 = (Inr ys, w')" "length ys = length xs"
    "calls w' = calls w1 @ xs"
    "\<forall>i<length xs. ys ! i = answer_v4 env (calls w1 @ take i xs) (xs ! i)"
    by blast
  show ?case
  proof (intro exI conjI)
    show "translate_each_v4 env (x # xs) w = (Inr (answer_v4 env (calls w) x # ys), w')"
      using x(1) ih(1) by (simp add: and_then_def return_val_def)
    show "length (answer_v4 env (calls w) x # ys) = length (x # xs)" using ih(2) by simp
    show "calls w' = calls w @ x # xs" using ih(3) x(2) by simp
    show "\<forall>i<length (x # xs). (answer_v4 env (calls w) x # ys) ! i =
        answer_v4 env (calls w @ take i (x # xs)) ((x # xs) ! i)"
      using ih(4) x(2) by (auto simp: nth_Cons split: nat.splits)
  qed
qed

lemma translate_context_v4_eq:
  assumes "map_of c ''title'' = Some t" "map_of c ''paragraphs'' = Some (PList ps)"
  shows "\<exists>ps' w'. translate_context_v4 env (PDict c) w =
           (Inr (PDict [(''title'', answer_v4 env (calls w) t), (''paragraphs'', PList ps')]), w') \<and>
         length ps' = length ps \<and>
         calls w' = calls w @ t # ps \<and>
         (\<forall>i<length ps. ps' ! i = answer_v4 env (calls w @ t # take i ps) (ps ! i))"
proof -
  define w1 where "w1 = snd (translate_text_v4 env t w)"
  have t: "translate_text_v4 env t w = (Inr (answer_v4 env (calls w) t), w1)"
    "calls w1 = calls w @ [t]"
    using translate_text_v4_answer[of env t w] by (simp_all add: w1_def prod_eq_iff)
  from translate_each_v4_eq[of env ps w1] obtain ps' w' where e:
    "translate_each_v4 env ps w1 = (Inr ps', w')" "length ps' = length ps"
    "calls w' = calls w1 @ ps"
    "\<forall>i<length ps. ps' ! i = answer_v4 env (calls w1 @ take i ps) (ps ! i)"
    by blast
  show ?thesis
  proof (intro exI conjI)
    show "translate_context_v4 env (PDict c) w =
           (Inr (PDict [(''title'', answer_v4 env (calls w) t), (''paragraphs'', PList ps')]), w')"
      using assms t(1) e(1)
      by (simp add: translate_context_v4_def translate_list_v4_def and_then_def lift_result_def
          return_val_def)
    show "length ps' = length ps" by (rule e(2))
    show "calls w' = calls w @ t # ps" using e(3) t(2) by simp
    show "\<forall>i<length ps. ps' ! i = answer_v4 env (calls w @ t # take i ps) (ps ! i)"
      using e(4) t(2) by simp
  qed
qed



subsection \<open>The fields of a record\<close>

lemma update_fresh: "k \<notin> fst ` set al \<Longrightarrow> AList.update k v al = al @ [(k, v)]"
  by (induction al) auto

lemma item_fields_v4_shape:
  assumes "item_fields_v4 env rest acc w = (Inr out, w')"
    and "distinct (map fst acc @ map fst rest)"
  shows "map fst out = map fst acc @ map fst rest \<and>
         set acc \<subseteq> set out \<and>
         (\<forall>(k, v)\<in>set rest. k \<noteq> ''question_decomposition'' \<and> k \<noteq> ''context'' \<longrightarrow>
            (if is_str v then \<exists>h. (k, answer_v4 env h v) \<in> set out else (k, v) \<in> set out))"
  using assms
proof (induction rest arbitrary: acc w)
  case Nil
  then show ?case by (simp add: return_val_def)
next
  case (Cons kv rest)
  obtain key val where kv: "kv = (key, val)" by (cases kv)
  define m where "m =
       (if key = ''question_decomposition'' then translate_question_decomposition_v4 env val
        else if key = ''context'' then translate_context_v4 env val
        else if is_str val then translate_text_v4 env val
        else return_val val)"
  from Cons.prems(1) obtain v w1 where m: "m w = (Inr v, w1)"
    and r: "item_fields_v4 env rest (AList.update key v acc) w1 = (Inr out, w')"
    unfolding kv m_def
    by (auto simp: and_then_def split: sum.splits prod.splits)
  have fresh: "key \<notin> fst ` set acc" using Cons.prems(2) kv by auto
  then have upd: "AList.update key v acc = acc @ [(key, v)]" by (rule update_fresh)
  have d: "distinct (map fst (acc @ [(key, v)]) @ map fst rest)"
    using Cons.prems(2) kv by auto
  from Cons.IH[OF r[unfolded upd] d]
  have ih: "map fst out = map fst (acc @ [(key, v)]) @ map fst rest"
    "set (acc @ [(key, v)]) \<subseteq> set out"
    "\<forall>(k, v)\<in>set rest. k \<noteq> ''question_decomposition'' \<and> k \<noteq> ''context'' \<longrightarrow>
            (if is_str v then \<exists>h. (k, answer_v4 env h v) \<in> set out else (k, v) \<in> set out)"
    by auto
  have here: "key \<noteq> ''question_decomposition'' \<and> key \<noteq> ''context'' \<longrightarrow>
      (if is_str val then v = answer_v4 env (calls w) val else v = val)"
    using m translate_text_v4_answer[of env val w]
    by (auto simp: m_def return_val_def)
  have "key \<noteq> ''question_decomposition'' \<and> key \<noteq> ''context'' \<longrightarrow>
      (if is_str val then \<exists>h. (key, answer_v4 env h val) \<in> set out else (key, val) \<in> set out)"
    using here ih(2) by auto
  with ih show ?case by (auto simp: kv)
qed

lemma getitem_member:
  "distinct (map fst d) \<Longrightarrow> (k, x) \<in> set d \<Longrightarrow> getitem (PDict d) k = Inr x"
  by simp

lemma translate_item_v4_shape:
  assumes "translate_item_v4 env (PDict d) w = (Inr out, w')"
    and "distinct (map fst d)"
  shows "\<exists>d'. out = PDict d' \<and> map fst d' = map fst d \<and>
     (\<forall>(k, v)\<in>set d. k \<noteq> ''question_decomposition'' \<and> k \<noteq> ''context'' \<longrightarrow>
        (if is_str v then \<exists>h. getitem out k = Inr (answer_v4 env h v)
         else getitem out k = Inr v))"
proof -
  from assms(1) obtain d' where d': "item_fields_v4 env d [] w = (Inr d', w')" "out = PDict d'"
    by (auto simp: translate_item_v4_def and_then_def return_val_def split: sum.splits prod.splits)
  from item_fields_v4_shape[OF d'(1)] assms(2)
  have s: "map fst d' = map fst d"
    "\<forall>(k, v)\<in>set d. k \<noteq> ''question_decomposition'' \<and> k \<noteq> ''context'' \<longrightarrow>
            (if is_str v then \<exists>h. (k, answer_v4 env h v) \<in> set d' else (k, v) \<in> set d')"
    by auto
  have dd: "distinct (map fst d')" using s(1) assms(2) by simp
  have "\<forall>(k, v)\<in>set d. k \<noteq> ''question_decomposition'' \<and> k \<noteq> ''context'' \<longrightarrow>
        (if is_str v then \<exists>h. getitem out k = Inr (answer_v4 env h v)
         else getitem out k = Inr v)"
  proof (intro ballI, clarify)
    fix k v
    assume kv: "(k, v) \<in> set d" and k: "k \<noteq> ''question_decomposition''" "k \<noteq> ''context''"
    show "if is_str v then \<exists>h. getitem out k = Inr (answer_v4 env h v)
         else getitem out k = Inr v"
    proof (cases "is_str v")
      case True
      with s(2) kv k obtain h where "(k, answer_v4 env h v) \<in> set d'" by fastforce
      from getitem_member[OF dd this] True show ?thesis unfolding d'(2) by auto
    next
      case False
      with s(2) kv k have "(k, v) \<in> set d'" by fastforce
      from getitem_member[OF dd this] False show ?thesis unfolding d'(2) by auto
    qed
  qed
  with s(1) d'(2) show ?thesis by blast
qed

lemma translated_item_Inr:
  assumes "translated_item env item w = (Inr out, w')"
  shows "\<exists>q a c pq pa qd ql q' a' c' pq' pa' qd' ql' answer_type previous_answer_type no_of_hops reasoning_type.
    getitem item ''question'' = Inr q \<and> getitem item ''answer'' = Inr a \<and>
    getitem item ''context'' = Inr c \<and> getitem item ''previous_question'' = Inr pq \<and>
    getitem item ''previous_answer'' = Inr pa \<and> getitem item ''question_decomposition'' = Inr qd \<and>
    getitem item ''question_on_last_hop'' = Inr ql \<and>
    getitem item ''answer_type'' = Inr answer_type \<and>
    getitem item ''previous_answer_type'' = Inr previous_answer_type \<and>
    getitem item ''no_of_hops'' = Inr no_of_hops \<and>
    getitem item ''reasoning_type'' = Inr reasoning_type \<and>
    out = PDict
       [(''question'', q'), (''answer'', a'), (''context'', c'),
        (''previous_question'', pq'), (''previous_answer'', pa'),
        (''question_decomposition'', qd'),
        (''question_on_last_hop'', ql'),
        (''answer_type'', answer_type), (''previous_answer_type'', previous_answer_type),
        (''no_of_hops'', no_of_hops), (''reasoning_type'', reasoning_type)]"
  using assms unfolding translated_item_def and_then_def lift_result_def return_val_def
  by (simp split: sum.splits prod.splits, blast)

lemma translated_item_metadata:
  assumes "translated_item env item w = (Inr out, w')" "k \<in> set metadata_fields"
  shows "getitem out k = getitem item k"
  using translated_item_Inr[OF assms(1)] assms(2)
  by (auto simp: metadata_fields_def)

lemma translated_item_keys:
  assumes "translated_item env item w = (Inr out, w')"
  shows "\<exists>d'. out = PDict d' \<and> map fst d' = required_fields"
  using translated_item_Inr[OF assms(1)]
  by (auto simp: required_fields_def)

lemma translated_item_missing_field:
  assumes "k \<in> set required_fields" "getitem item k = Inl e"
  shows "\<exists>e' w'. translated_item env item w = (Inl e', w')"
proof (cases "translated_item env item w")
  case (Pair r w')
  show ?thesis
  proof (cases r)
    case (Inl e')
    with Pair show ?thesis by blast
  next
    case (Inr out)
    from translated_item_Inr[OF Pair[unfolded Inr]] assms
    have False by (auto simp: required_fields_def)
    then show ?thesis ..
  qed
qed


lemma king_record_translated:
  "translate_item_v4 stub_env (PDict king_record) world0 =
     (Inr (PDict [(''question'', PStr ''bn Who is king?''), (''answer'', PStr ''bn Bob''),
                  (''no_of_hops'', PInt 2), (''source'', PStr ''bn wiki'')]),
      world0\<lparr>calls := [PStr ''Who is king?'', PStr ''Bob'', PStr ''wiki'']\<rparr>)"
  by (simp add: translate_item_v4_def king_record_def translate_text_v4_eq eval_defs)



text \<open>
  Claim C4, as amended. For each of the four metadata fields: the dictionary built by the
  translation loop of \<^verbatim>\<open>translate_to_bn_v3.py\<close> holds the value of the input record, whatever
  its type; \<^verbatim>\<open>translate_item\<close> of \<^verbatim>\<open>translate_v4.py\<close> keeps the value when it is not a
  string, and replaces a string by what \<^verbatim>\<open>translate_text\<close> returns for it.
\<close>

theorem metadata_fields_mapped:
  "k \<in> set metadata_fields \<longrightarrow>
     (translated_item env item w = (Inr out, w') \<longrightarrow> getitem out k = getitem item k) \<and>
     (translate_item_v4 env (PDict d) u = (Inr res, u') \<and> distinct (map fst d) \<and>
      (k, v) \<in> set d \<longrightarrow>
        (if is_str v then \<exists>h. getitem res k = Inr (answer_v4 env h v)
         else getitem res k = Inr v))"
proof (intro impI conjI)
  assume "k \<in> set metadata_fields" "translated_item env item w = (Inr out, w')"
  then show "getitem out k = getitem item k" by (simp add: translated_item_metadata)
next
  assume k: "k \<in> set metadata_fields"
  assume a: "translate_item_v4 env (PDict d) u = (Inr res, u') \<and> distinct (map fst d) \<and>
      (k, v) \<in> set d"
  from k have "k \<noteq> ''question_decomposition''" "k \<noteq> ''context''"
    by (auto simp: metadata_fields_def)
  with translate_item_v4_shape[of env d u res u'] a
  show "if is_str v then \<exists>h. getitem res k = Inr (answer_v4 env h v)
         else getitem res k = Inr v"
    by fastforce
qed

lemma full_record_translated:
  "fst (translated_item stub_env (PDict full_record) world0) = Inr full_record_bn"
  by (simp add: translated_item_def full_record_def full_record_bn_def sub_item_q1_def
      translate_text_stub translate_text_falsy_eq translate_question_decomposition_def
      and_then_def lift_result_def return_val_def)

theorem metadata_fields_mapped_witness:
  "''answer_type'' \<in> set metadata_fields \<and>
   getitem (PDict full_record) ''answer_type'' = Inr (PStr ''person'') \<and>
   fst (translated_item stub_env (PDict full_record) world0) = Inr full_record_bn \<and>
   getitem full_record_bn ''answer_type'' = Inr (PStr ''person'') \<and>
   ''no_of_hops'' \<in> set metadata_fields \<and>
   (''no_of_hops'', PInt 2) \<in> set typed_record \<and> 
   (\<exists>out4. fst (translate_item_v4 stub_env (PDict typed_record) world0) = Inr out4 \<and>
      getitem out4 ''no_of_hops'' = Inr (PInt 2))"
proof -
  have m1: "''answer_type'' \<in> set metadata_fields" and m2: "''no_of_hops'' \<in> set metadata_fields"
    by (simp_all add: metadata_fields_def)
  have g: "getitem (PDict full_record) ''answer_type'' = Inr (PStr ''person'')"
    by (simp add: full_record_def)
  have r3: "translated_item stub_env (PDict full_record) world0 =
      (Inr full_record_bn, snd (translated_item stub_env (PDict full_record) world0))"
    using full_record_translated by (simp add: prod_eq_iff)
  define out4 where "out4 = PDict [(''answer_type'', PStr ''bn person''), (''no_of_hops'', PInt 2)]"
  have r4: "translate_item_v4 stub_env (PDict typed_record) world0 =
      (Inr out4, snd (translate_item_v4 stub_env (PDict typed_record) world0))"
    by (simp add: prod_eq_iff out4_def translate_item_v4_def typed_record_def
        translate_text_v4_eq eval_defs)
  have d: "distinct (map fst typed_record)" and i: "(''no_of_hops'', PInt 2) \<in> set typed_record"
    by (simp_all add: typed_record_def)
  from metadata_fields_mapped[where k = "''answer_type''" and env = stub_env
      and item = "PDict full_record" and w = world0 and out = full_record_bn
      and w' = "snd (translated_item stub_env (PDict full_record) world0)"] m1 r3 g
  have c3: "getitem full_record_bn ''answer_type'' = Inr (PStr ''person'')" by simp
  from metadata_fields_mapped[where k = "''no_of_hops''" and env = stub_env and d = typed_record
      and u = world0 and res = out4 and v = "PInt 2"
      and u' = "snd (translate_item_v4 stub_env (PDict typed_record) world0)"] m2 r4 d i
  have c4: "getitem out4 ''no_of_hops'' = Inr (PInt 2)" by simp
  show ?thesis using m1 m2 g i r3 r4 c3 c4 by (metis fst_conv)
qed

theorem translate_item_v4_translates_string_metadata:
  "getitem (PDict typed_record) ''answer_type'' = Inr (PStr ''person'') \<and>
   fst (translate_item_v4 stub_env (PDict typed_record) world0) =
     Inr (PDict [(''answer_type'', PStr ''bn person''), (''no_of_hops'', PInt 2)])"
  by (simp add: translate_item_v4_def typed_record_def translate_text_v4_eq eval_defs)

section \<open>What translating leaves as it is\<close>

lemma keepsD: "keeps f m \<Longrightarrow> f (snd (m w)) = f w"
  by (simp add: keeps_def)

lemma keeps_return [intro!]: "keeps f (return_val x)"
  and keeps_raise [intro!]: "keeps f (raise_exn e)"
  and keeps_lift [intro!]: "keeps f (lift_result r)"
  by (simp_all add: keeps_def return_val_def raise_exn_def lift_result_def)

lemma keeps_and_then [intro!]:
  assumes "keeps f m" "\<And>x. keeps f (g x)"
  shows "keeps f (and_then m g)"
  unfolding keeps_def and_then_def
proof
  fix w
  show "f (snd (case m w of (Inl e, w') \<Rightarrow> (Inl e, w') | (Inr x, w') \<Rightarrow> g x w')) = f w"
    using keepsD[OF assms(1), of w] keepsD[OF assms(2), of _ "snd (m w)"]
    by (cases "m w") (auto split: sum.splits)
qed

lemma keeps_try_except [intro!]:
  assumes "keeps f m" "\<And>e. keeps f (h e)"
  shows "keeps f (try_except m h)"
  unfolding keeps_def try_except_def
proof
  fix w
  show "f (snd (case m w of (Inl e, w') \<Rightarrow> h e w' | (Inr x, w') \<Rightarrow> (Inr x, w'))) = f w"
    using keepsD[OF assms(1), of w] keepsD[OF assms(2), of _ "snd (m w)"]
    by (cases "m w") (auto split: sum.splits)
qed

lemma keeps_if [intro!]:
  "(c \<Longrightarrow> keeps f a) \<Longrightarrow> (\<not> c \<Longrightarrow> keeps f b) \<Longrightarrow> keeps f (if c then a else b)"
  by simp

lemma keeps_logging: "outside_translation f \<Longrightarrow> keeps f (logging l m)"
  and keeps_time_sleep: "outside_translation f \<Longrightarrow> keeps f (time_sleep d)"
  and keeps_translator_translate: "outside_translation f \<Longrightarrow> keeps f (translator_translate env t)"
  by (simp_all add: keeps_def outside_translation_def logging_def time_sleep_def
      translator_translate_def)

lemma keeps_translate_attempts:
  "outside_translation f \<Longrightarrow> keeps f (translate_attempts env t attempt)"
proof (induction env t attempt rule: translate_attempts.induct)
  case (1 env t attempt)
  note prims = keeps_logging[OF 1(2)] keeps_time_sleep[OF 1(2)] keeps_translator_translate[OF 1(2)]
  show ?case
    by (subst translate_attempts.simps)
      (intro keeps_if keeps_try_except keeps_and_then keeps_return keeps_lift prims 1(1) 1(2);
        assumption)
qed

lemma keeps_translate_text:
  "outside_translation f \<Longrightarrow> keeps f (translate_text env text)"
  unfolding translate_text_def by (auto intro: keeps_translate_attempts)

lemma keeps_translate_text_v4:
  "outside_translation f \<Longrightarrow> keeps f (translate_text_v4 env text)"
  unfolding translate_text_v4_def
  by (auto intro!: keeps_logging keeps_translator_translate)

lemma keeps_decomposition_items:
  "(\<And>v. keeps f (tt v)) \<Longrightarrow> keeps f (decomposition_items tt items acc)"
  by (induction items arbitrary: acc) auto

lemma keeps_translate_question_decomposition:
  "outside_translation f \<Longrightarrow> keeps f (translate_question_decomposition env v)"
  unfolding translate_question_decomposition_def
  by (auto intro!: keeps_decomposition_items keeps_translate_text)

lemma keeps_translated_item:
  "outside_translation f \<Longrightarrow> keeps f (translated_item env item)"
  unfolding translated_item_def
  by (intro keeps_and_then keeps_lift keeps_return keeps_translate_text
      keeps_translate_question_decomposition)

lemma outside_translation_fields:
  "outside_translation fsops" "outside_translation files" "outside_translation hub"
  by (simp_all add: outside_translation_def)

lemma keeps_hub_fs_do: "keeps hub (fs_do env op)"
  by (simp add: keeps_def fs_do_def split: option.splits)

lemma keeps_hub_fs_do_all: "keeps hub (fs_do_all env ops)"
  by (induction ops) (auto intro: keeps_hub_fs_do)

lemma keeps_hub_save_checkpoint: "keeps hub (save_checkpoint env data n)"
  unfolding save_checkpoint_def
  by (auto intro!: keeps_hub_fs_do_all keeps_logging outside_translation_fields)

lemma keeps_hub_translation_loop: "keeps hub (translation_loop env idx ds td)"
  by (induction ds arbitrary: idx td)
    (auto intro!: keeps_hub_save_checkpoint keeps_logging keeps_translated_item
      outside_translation_fields)

section \<open>The checkpoint manager: save\_checkpoint\<close>

lemma fs_do_all_Inr:
  assumes "fs_do_all env ops w = (Inr u, w')"
  shows "fsops w' = fsops w @ ops \<and> (\<forall>op\<in>set ops. fs_fault env op = None) \<and>
         hub w' = hub w \<and> calls w' = calls w \<and> logged w' = logged w \<and>
         files w' = foldl (\<lambda>fs op. fs_apply op fs) (files w) ops"
  using assms
proof (induction ops arbitrary: w)
  case Nil
  then show ?case by (simp add: return_val_def)
next
  case (Cons op ops)
  from Cons.prems obtain w1 where 1: "fs_do env op w = (Inr (), w1)"
    and 2: "fs_do_all env ops w1 = (Inr u, w')"
    by (auto simp: and_then_def split: sum.splits prod.splits)
  from 1 have f: "fs_fault env op = None"
    and w1: "w1 = w\<lparr>files := fs_apply op (files w), fsops := fsops w @ [op]\<rparr>"
    by (auto simp: fs_do_def split: option.splits)
  from Cons.IH[OF 2] f w1 show ?case by simp
qed

lemma save_checkpoint_Inr:
  assumes "save_checkpoint env data n w = (Inr u, w')"
  shows "fsops w' = fsops w @ save_ops env data n \<and>
         (\<forall>op\<in>set (save_ops env data n). fs_fault env op = None) \<and>
         hub w' = hub w \<and> calls w' = calls w \<and>
         files w' = foldl (\<lambda>fs op. fs_apply op fs) (files w) (save_ops env data n)"
proof -
  from assms obtain w1 where 1: "fs_do_all env (save_ops env data n) w = (Inr (), w1)"
    and 2: "w' = w1\<lparr>logged := logged w1 @ [(INFO, Checkpoint_saved (checkpoint_path n))]\<rparr>"
    by (auto simp: save_checkpoint_def and_then_def logging_def split: sum.splits prod.splits)
  from fs_do_all_Inr[OF 1] 2 show ?thesis by simp
qed

lemma fold_writes:
  "foldl (\<lambda>fs op. fs_apply op fs) (fs(p \<mapsto> c)) (map (Write p) chunks) =
     fs(p \<mapsto> c @ concat chunks)"
  by (induction chunks arbitrary: c) simp_all

lemma crash_in_place:
  "files_after_crash k ([Makedirs d, Open_w p] @ map (Write p) chunks) fs =
     (if k < 2 then fs else fs(p \<mapsto> concat (take (k - 2) chunks)))"
proof (cases "k < 2")
  case True
  then have "k = 0 \<or> k = 1" by arith
  then show ?thesis by (auto simp: files_after_crash_def)
next
  case False
  then obtain j where k: "k = Suc (Suc j)" by (metis not_less numeral_2_eq_2 le_Suc_ex add_2_eq_Suc)
  have "files_after_crash k ([Makedirs d, Open_w p] @ map (Write p) chunks) fs =
      foldl (\<lambda>fs op. fs_apply op fs) (fs(p \<mapsto> [])) (map (Write p) (take j chunks))"
    by (simp add: files_after_crash_def k take_map)
  also have "\<dots> = fs(p \<mapsto> concat (take j chunks))"
    by (simp add: fold_writes)
  finally show ?thesis using False k by simp
qed

lemma complete_in_place:
  assumes "fs_do_all env ([Makedirs d, Open_w p] @ map (Write p) chunks) w = (Inr u, w')"
  shows "files w' = (files w)(p \<mapsto> concat chunks)"
proof -
  from fs_do_all_Inr[OF assms]
  have "files w' = foldl (\<lambda>fs op. fs_apply op fs) ((files w)(p \<mapsto> [])) (map (Write p) chunks)"
    by simp
  then show ?thesis by (simp add: fold_writes)
qed

lemma save_checkpoint_files:
  assumes "save_checkpoint env data n w = (Inr u, w')"
  shows "files w' = (files w)(checkpoint_path n \<mapsto> concat (json_dump env (PList data)))"
proof -
  from assms obtain w1 where 1: "fs_do_all env (save_ops env data n) w = (Inr (), w1)"
    and 2: "files w' = files w1"
    by (auto simp: save_checkpoint_def and_then_def logging_def split: sum.splits prod.splits)
  from complete_in_place[OF 1[unfolded save_ops_def]] 2 show ?thesis by simp
qed

lemma save_checkpoint_v2_files:
  assumes "save_checkpoint_v2 env ts data n w = (Inr u, w')"
  shows "files w' = (files w)(checkpoint_path_v2 n ts \<mapsto> concat (json_dump env (PList data)))"
proof -
  from assms obtain w1 where 1: "fs_do_all env (save_ops_v2 env ts data n) w = (Inr (), w1)"
    and 2: "files w' = files w1"
    by (auto simp: save_checkpoint_v2_def and_then_def logging_def split: sum.splits prod.splits)
  from complete_in_place[OF 1[unfolded save_ops_v2_def]] 2 show ?thesis by simp
qed

text \<open>
  Claim C7, as amended. \<^verbatim>\<open>save_checkpoint\<close> (of \<^verbatim>\<open>translate_to_bn_v3.py\<close> and of
  \<^verbatim>\<open>translate_to_bn_v2.py\<close>) opens the checkpoint file itself for writing and writes the
  pieces of the JSON text into it; there is no temporary file and no rename. A save that
  runs to its end leaves the whole JSON text in the checkpoint file and no other file
  changed. A process that dies after \<open>k\<close> of the file operations of a save leaves the files
  unchanged when \<open>k < 2\<close>, and otherwise leaves in the checkpoint file the first \<open>k - 2\<close>
  pieces of the JSON text: an empty file for \<open>k = 2\<close>.
\<close>

theorem save_checkpoint_writes_in_place:
  "(\<forall>k. files_after_crash k (save_ops env data n) fs =
         (if k < 2 then fs
          else fs(checkpoint_path n \<mapsto> concat (take (k - 2) (json_dump env (PList data)))))) \<and>
   (\<forall>k. files_after_crash k (save_ops_v2 env ts data n) fs =
         (if k < 2 then fs
          else fs(checkpoint_path_v2 n ts \<mapsto> concat (take (k - 2) (json_dump env (PList data)))))) \<and>
   (save_checkpoint env data n w = (Inr u, w') \<longrightarrow>
      files w' = (files w)(checkpoint_path n \<mapsto> concat (json_dump env (PList data)))) \<and>
   (save_checkpoint_v2 env ts data n w = (Inr u, w') \<longrightarrow>
      files w' = (files w)(checkpoint_path_v2 n ts \<mapsto> concat (json_dump env (PList data))))"
  by (simp add: save_ops_def save_ops_v2_def crash_in_place save_checkpoint_files
      save_checkpoint_v2_files del: append.simps)

lemma save_checkpoint_stub:
  "save_checkpoint stub_env data 100 world0 =
     (Inr (), world0\<lparr>logged := [(INFO, Checkpoint_saved (checkpoint_path 100))],
        files := [checkpoint_path 100 \<mapsto> ''[]''],
        fsops := [Makedirs checkpoint_dir, Open_w (checkpoint_path 100),
                  Write (checkpoint_path 100) ''['', Write (checkpoint_path 100) '']'']\<rparr>)"
  by (simp add: save_checkpoint_def save_ops_def fs_do_def stub_env_def world0_def
      and_then_def logging_def return_val_def)

lemma save_checkpoint_v2_stub:
  "save_checkpoint_v2 stub_env ts data 50 world0 =
     (Inr (), world0\<lparr>logged := [(INFO, Checkpoint_saved (checkpoint_path_v2 50 ts))],
        files := [checkpoint_path_v2 50 ts \<mapsto> ''[]''],
        fsops := [Makedirs checkpoint_dir, Open_w (checkpoint_path_v2 50 ts),
                  Write (checkpoint_path_v2 50 ts) ''['', Write (checkpoint_path_v2 50 ts) '']'']\<rparr>)"
  by (simp add: save_checkpoint_v2_def save_ops_v2_def fs_do_def stub_env_def world0_def
      and_then_def logging_def return_val_def)

theorem save_checkpoint_writes_in_place_witness:
  "fst (save_checkpoint stub_env (replicate 100 blank_record) 100 world0) = Inr () \<and>
   files (snd (save_checkpoint stub_env (replicate 100 blank_record) 100 world0)) =
     [checkpoint_path 100 \<mapsto> ''[]''] \<and>
   fst (save_checkpoint_v2 stub_env ''20240101_120000'' (replicate 50 blank_record) 50 world0)
     = Inr () \<and>
   files (snd (save_checkpoint_v2 stub_env ''20240101_120000'' (replicate 50 blank_record) 50
     world0)) = [checkpoint_path_v2 50 ''20240101_120000'' \<mapsto> ''[]'']"
proof -
  have a: "save_checkpoint stub_env (replicate 100 blank_record) 100 world0 =
      (Inr (), snd (save_checkpoint stub_env (replicate 100 blank_record) 100 world0))"
    by (simp add: save_checkpoint_stub)
  have b: "save_checkpoint_v2 stub_env ''20240101_120000'' (replicate 50 blank_record) 50 world0 =
      (Inr (), snd (save_checkpoint_v2 stub_env ''20240101_120000'' (replicate 50 blank_record) 50
         world0))"
    by (simp add: save_checkpoint_v2_stub)
  have j: "json_dump stub_env v = [''['', '']'']" for v by (simp add: stub_env_def)
  from save_checkpoint_writes_in_place[where env = stub_env and data = "replicate 100 blank_record"
      and n = 100 and w = world0 and u = "()"
      and w' = "snd (save_checkpoint stub_env (replicate 100 blank_record) 100 world0)"] a
  have 1: "files (snd (save_checkpoint stub_env (replicate 100 blank_record) 100 world0)) =
     [checkpoint_path 100 \<mapsto> ''[]'']"
    by (simp add: j world0_def)
  from save_checkpoint_writes_in_place[where env = stub_env and data = "replicate 50 blank_record"
      and n = 50 and ts = "''20240101_120000''" and w = world0 and u = "()"
      and w' = "snd (save_checkpoint_v2 stub_env ''20240101_120000'' (replicate 50 blank_record)
         50 world0)"] b
  have 2: "files (snd (save_checkpoint_v2 stub_env ''20240101_120000'' (replicate 50 blank_record) 50
     world0)) = [checkpoint_path_v2 50 ''20240101_120000'' \<mapsto> ''[]'']"
    by (simp add: j world0_def)
  show ?thesis using a b 1 2 by (metis fst_conv)
qed

theorem save_checkpoint_crash_leaves_partial_file:
  "concat (json_dump stub_env (PList (replicate 100 blank_record))) = ''[]'' \<and>
   files_after_crash 2 (save_ops stub_env (replicate 100 blank_record) 100) Map.empty
     (checkpoint_path 100) = Some [] \<and>
   files_after_crash 3 (save_ops stub_env (replicate 100 blank_record) 100) Map.empty
     (checkpoint_path 100) = Some ''[''"
  by (simp add: files_after_crash_def save_ops_def stub_env_def)

subsection \<open>One file for each checkpoint\<close>

lemma digit_inj:
  assumes "d < 10" "d' < 10" "''0123456789'' ! d = ''0123456789'' ! d'"
  shows "d = d'"
proof -
  have "distinct ''0123456789''" by simp
  moreover have "d < length ''0123456789''" "d' < length ''0123456789''" using assms by simp_all
  ultimately show ?thesis using assms(3) by (simp only: nth_eq_iff_index_eq)
qed

lemma str_nat_nonempty: "str_nat n \<noteq> []"
  by (subst str_nat.simps) simp

lemma str_nat_inj: "str_nat n = str_nat m \<Longrightarrow> n = m"
proof (induction n arbitrary: m rule: str_nat.induct)
  case (1 n)
  show ?case
  proof (cases "n < 10")
    case True
    show ?thesis
    proof (cases "m < 10")
      case m: True
      from 1(2) True m have "''0123456789'' ! n = ''0123456789'' ! m"
        by (simp add: str_nat.simps[of n] str_nat.simps[of m])
      with True m show ?thesis by (rule digit_inj)
    next
      case False
      with 1(2) True have "[''0123456789'' ! n] = str_nat (m div 10) @ [''0123456789'' ! (m mod 10)]"
        by (simp add: str_nat.simps[of n] str_nat.simps[of m])
      then have "str_nat (m div 10) = []" by simp
      with str_nat_nonempty show ?thesis by blast
    qed
  next
    case False
    show ?thesis
    proof (cases "m < 10")
      case True
      with 1(2) False have "str_nat (n div 10) @ [''0123456789'' ! (n mod 10)] = [''0123456789'' ! m]"
        by (simp add: str_nat.simps[of n] str_nat.simps[of m])
      then have "str_nat (n div 10) = []" by simp
      with str_nat_nonempty show ?thesis by blast
    next
      case m: False
      from 1(2) False m have e: "str_nat (n div 10) = str_nat (m div 10)"
        "''0123456789'' ! (n mod 10) = ''0123456789'' ! (m mod 10)"
        by (simp_all add: str_nat.simps[of n] str_nat.simps[of m])
      from 1(1)[OF False e(1)] have d: "n div 10 = m div 10" .
      have "n mod 10 = m mod 10" using e(2) by (intro digit_inj) simp_all
      with d show ?thesis by (metis div_mult_mod_eq)
    qed
  qed
qed

lemma checkpoint_path_inj: "checkpoint_path n = checkpoint_path m \<Longrightarrow> n = m"
  by (simp add: checkpoint_path_def str_nat_inj)

lemma fold_save_ops:
  "foldl (\<lambda>fs op. fs_apply op fs) fs (save_ops env data n) =
     fs(checkpoint_path n \<mapsto> concat (json_dump env (PList data)))"
  by (simp add: save_ops_def fold_writes)

lemma fold_saves_lookup:
  assumes "m \<in> set ms"
  shows "foldl (\<lambda>fs op. fs_apply op fs) fs (concat (map (\<lambda>m. save_ops env (g m) m) ms))
           (checkpoint_path m) = Some (concat (json_dump env (PList (g m))))"
  using assms
proof (induction ms rule: rev_induct)
  case Nil
  then show ?case by simp
next
  case (snoc k ms)
  show ?case
  proof (cases "k = m")
    case True
    then show ?thesis by (simp add: fold_save_ops)
  next
    case False
    then have "checkpoint_path k \<noteq> checkpoint_path m" using checkpoint_path_inj by blast
    moreover from False snoc.prems have "m \<in> set ms" by simp
    ultimately show ?thesis using snoc.IH by (simp add: fold_save_ops)
  qed
qed

section \<open>The pipeline driver: the translation loop and the run\<close>

lemma checkpoint_indices_Suc:
  "checkpoint_indices idx (Suc n) =
     (if (idx + 1) mod CHECKPOINT_INTERVAL = 0 then [idx + 1] else []) @
     checkpoint_indices (idx + 1) n"
proof -
  have "[idx + 1 ..< idx + Suc n + 1] = (idx + 1) # [idx + 1 + 1 ..< idx + 1 + n + 1]"
    by (simp add: upt_conv_Cons)
  then show ?thesis by (simp add: checkpoint_indices_def)
qed

lemma checkpoint_indices_bound:
  "m \<in> set (checkpoint_indices 0 n) \<Longrightarrow> 0 < m \<and> m mod CHECKPOINT_INTERVAL = 0 \<and>
     m + n mod CHECKPOINT_INTERVAL \<le> n"
proof -
  assume "m \<in> set (checkpoint_indices 0 n)"
  then have m: "0 < m" "m \<le> n" "m mod CHECKPOINT_INTERVAL = 0"
    by (auto simp: checkpoint_indices_def)
  have "n = (n - m) + m" using m(2) by simp
  then have "n mod CHECKPOINT_INTERVAL = ((n - m) + m) mod CHECKPOINT_INTERVAL" by simp
  also have "\<dots> = ((n - m) + m mod CHECKPOINT_INTERVAL) mod CHECKPOINT_INTERVAL"
    by (rule mod_add_right_eq[symmetric])
  also have "\<dots> = (n - m) mod CHECKPOINT_INTERVAL" using m(3) by simp
  also have "\<dots> \<le> n - m" by (rule mod_less_eq_dividend)
  finally show ?thesis using m by simp
qed

lemma translation_loop_Inr:
  assumes "translation_loop env idx ds td w = (Inr out, w')" "length td = idx"
  shows "\<exists>new. out = td @ new \<and> length new = length ds \<and>
           fsops w' = fsops w @
             concat (map (\<lambda>m. save_ops env (take m out) m) (checkpoint_indices idx (length ds))) \<and>
           (\<forall>m\<in>set (checkpoint_indices idx (length ds)).
              \<forall>op\<in>set (save_ops env (take m out) m). fs_fault env op = None) \<and>
           hub w' = hub w \<and>
           (\<forall>item\<in>set ds. \<exists>w1 ti w2. translated_item env item w1 = (Inr ti, w2))"
  using assms
proof (induction ds arbitrary: idx td w)
  case Nil
  then show ?case by (simp add: return_val_def checkpoint_indices_def)
next
  case (Cons item rest)
  let ?save = "\<lambda>ti. if (idx + 1) mod CHECKPOINT_INTERVAL = 0 then
          and_then (logging INFO (Progress (idx + 1))) (\<lambda>_.
          save_checkpoint env (td @ [ti]) (idx + 1))
        else return_val ()"
  from Cons.prems(1) obtain ti w1 w2 where
    1: "translated_item env item w = (Inr ti, w1)" and
    2: "?save ti w1 = (Inr (), w2)" and
    3: "translation_loop env (idx + 1) rest (td @ [ti]) w2 = (Inr out, w')"
    by (simp add: and_then_def split: sum.splits prod.splits) 
  have w1: "fsops w1 = fsops w" "hub w1 = hub w"
    using keepsD[OF keeps_translated_item[OF outside_translation_fields(1)], of env item w]
      keepsD[OF keeps_translated_item[OF outside_translation_fields(3)], of env item w] 1
    by simp_all
  have len: "length (td @ [ti]) = idx + 1" using Cons.prems(2) by simp
  from Cons.IH[OF 3 len] obtain new where ih:
    "out = (td @ [ti]) @ new" "length new = length rest"
    "fsops w' = fsops w2 @
       concat (map (\<lambda>m. save_ops env (take m out) m) (checkpoint_indices (idx + 1) (length rest)))"
    "\<forall>m\<in>set (checkpoint_indices (idx + 1) (length rest)).
              \<forall>op\<in>set (save_ops env (take m out) m). fs_fault env op = None"
    "hub w' = hub w2"
    "\<forall>item\<in>set rest. \<exists>w1 ti w2. translated_item env item w1 = (Inr ti, w2)"
    by blast
  have tk: "take (idx + 1) out = td @ [ti]" using ih(1) len by simp
  have w2: "fsops w2 = fsops w1 @
      (if (idx + 1) mod CHECKPOINT_INTERVAL = 0 then save_ops env (td @ [ti]) (idx + 1) else [])"
    "hub w2 = hub w1"
    "(idx + 1) mod CHECKPOINT_INTERVAL = 0 \<longrightarrow>
       (\<forall>op\<in>set (save_ops env (td @ [ti]) (idx + 1)). fs_fault env op = None)"
  proof -
    show "fsops w2 = fsops w1 @
      (if (idx + 1) mod CHECKPOINT_INTERVAL = 0 then save_ops env (td @ [ti]) (idx + 1) else [])"
      "hub w2 = hub w1"
      "(idx + 1) mod CHECKPOINT_INTERVAL = 0 \<longrightarrow>
       (\<forall>op\<in>set (save_ops env (td @ [ti]) (idx + 1)). fs_fault env op = None)"
    proof (atomize (full), cases "(idx + 1) mod CHECKPOINT_INTERVAL = 0")
      case True
      with 2 have "save_checkpoint env (td @ [ti]) (idx + 1)
          (w1\<lparr>logged := logged w1 @ [(INFO, Progress (idx + 1))]\<rparr>) = (Inr (), w2)"
        by (simp add: and_then_def logging_def)
      from save_checkpoint_Inr[OF this] True
      show "(fsops w2 = fsops w1 @
      (if (idx + 1) mod CHECKPOINT_INTERVAL = 0 then save_ops env (td @ [ti]) (idx + 1) else [])) \<and>
      hub w2 = hub w1 \<and>
      ((idx + 1) mod CHECKPOINT_INTERVAL = 0 \<longrightarrow>
       (\<forall>op\<in>set (save_ops env (td @ [ti]) (idx + 1)). fs_fault env op = None))"
        by simp
    next
      case False
      with 2 show "(fsops w2 = fsops w1 @
      (if (idx + 1) mod CHECKPOINT_INTERVAL = 0 then save_ops env (td @ [ti]) (idx + 1) else [])) \<and>
      hub w2 = hub w1 \<and>
      ((idx + 1) mod CHECKPOINT_INTERVAL = 0 \<longrightarrow>
       (\<forall>op\<in>set (save_ops env (td @ [ti]) (idx + 1)). fs_fault env op = None))"
        by (simp add: return_val_def)
    qed
  qed
  show ?case
  proof (intro exI[of _ "ti # new"] conjI)
    show "out = td @ ti # new" using ih(1) by simp
    show "length (ti # new) = length (item # rest)" using ih(2) by simp
    show "fsops w' = fsops w @ concat (map (\<lambda>m. save_ops env (take m out) m)
        (checkpoint_indices idx (length (item # rest))))"
      using ih(3) w2(1) w1(1) tk by (simp add: checkpoint_indices_Suc)
    show "\<forall>m\<in>set (checkpoint_indices idx (length (item # rest))).
       \<forall>op\<in>set (save_ops env (take m out) m). fs_fault env op = None"
      using ih(4) w2(3) tk by (auto simp: checkpoint_indices_Suc split: if_splits)
    show "hub w' = hub w" using ih(5) w2(2) w1(2) by simp
    show "\<forall>item\<in>set (item # rest). \<exists>w1 ti w2. translated_item env item w1 = (Inr ti, w2)"
      using ih(6) 1 by auto
  qed
qed

lemma translation_loop_files:
  assumes "translation_loop env idx ds td w = (Inr out, w')"
  shows "\<exists>ops. fsops w' = fsops w @ ops \<and>
           files w' = foldl (\<lambda>fs op. fs_apply op fs) (files w) ops"
  using assms
proof (induction ds arbitrary: idx td w)
  case Nil
  then show ?case by (simp add: return_val_def)
next
  case (Cons item rest)
  let ?save = "\<lambda>ti. if (idx + 1) mod CHECKPOINT_INTERVAL = 0 then
          and_then (logging INFO (Progress (idx + 1))) (\<lambda>_.
          save_checkpoint env (td @ [ti]) (idx + 1))
        else return_val ()"
  from Cons.prems(1) obtain ti w1 w2 where
    1: "translated_item env item w = (Inr ti, w1)" and
    2: "?save ti w1 = (Inr (), w2)" and
    3: "translation_loop env (idx + 1) rest (td @ [ti]) w2 = (Inr out, w')"
    by (simp add: and_then_def split: sum.splits prod.splits) 
  have w1: "fsops w1 = fsops w" "files w1 = files w"
    using keepsD[OF keeps_translated_item[OF outside_translation_fields(1)], of env item w]
      keepsD[OF keeps_translated_item[OF outside_translation_fields(2)], of env item w] 1
    by simp_all
  have "\<exists>ops. fsops w2 = fsops w1 @ ops \<and>
           files w2 = foldl (\<lambda>fs op. fs_apply op fs) (files w1) ops"
  proof (cases "(idx + 1) mod CHECKPOINT_INTERVAL = 0")
    case True
    with 2 have "save_checkpoint env (td @ [ti]) (idx + 1)
          (w1\<lparr>logged := logged w1 @ [(INFO, Progress (idx + 1))]\<rparr>) = (Inr (), w2)"
      by (simp add: and_then_def logging_def)
    from save_checkpoint_Inr[OF this] show ?thesis by simp
  next
    case False
    with 2 show ?thesis by (simp add: return_val_def)
  qed
  then obtain ops1 where o1: "fsops w2 = fsops w1 @ ops1"
    "files w2 = foldl (\<lambda>fs op. fs_apply op fs) (files w1) ops1" by blast
  from Cons.IH[OF 3] obtain ops2 where o2: "fsops w' = fsops w2 @ ops2"
    "files w' = foldl (\<lambda>fs op. fs_apply op fs) (files w2) ops2" by blast
  show ?case
    using o1 o2 w1 by (intro exI[of _ "ops1 @ ops2"]) simp
qed

lemma download_dataset_eq:
  "download_dataset env w =
     (case hf_hub_download env of
        Inl e \<Rightarrow> (Inl e, w\<lparr>logged := logged w @ [(ERROR, Error_downloading_dataset e)]\<rparr>)
      | Inr p \<Rightarrow>
          (case load_file env of
             Inl e \<Rightarrow> (Inl e, w\<lparr>logged := logged w @
                 [(INFO, Dataset_downloaded_to p), (ERROR, Error_downloading_dataset e)]\<rparr>)
           | Inr ds \<Rightarrow> (Inr ds, w\<lparr>logged := logged w @ [(INFO, Dataset_downloaded_to p)]\<rparr>)))"
  by (simp add: download_dataset_def try_except_def and_then_def logging_def lift_result_def
      raise_exn_def split: sum.splits)

lemmas run_defs = translate_and_push_dataset_def download_dataset_eq create_translator_def
  dataset_from_list_def push_to_hub_def upload_file_def try_except_def and_then_def logging_def
  lift_result_def raise_exn_def return_val_def

lemma translate_and_push_dataset_Inr:
  assumes "translate_and_push_dataset env w = (Inr u, w')"
  shows "\<exists>p ds out w1. hf_hub_download env = Inr p \<and> load_file env = Inr ds \<and>
           translation_loop env 0 ds [] (started p w) = (Inr out, w1) \<and>
           hub w' = hub w1 @ [Push_to_hub ''bengali-morehopqa'' out,
                             Upload_file ''README.md'' ''bengali-morehopqa''] \<and>
           fsops w' = fsops w1 \<and> files w' = files w1 \<and> calls w' = calls w1"
  using assms unfolding run_defs started_def
  by (auto split: sum.splits prod.splits option.splits)

lemma translate_and_push_dataset_loop_fails:
  assumes "load_file env = Inr ds"
    and "\<And>p out w1. translation_loop env 0 ds [] (started p w) \<noteq> (Inr out, w1)"
  shows "\<exists>e' w2. translate_and_push_dataset env w =
           (Inl e', w2\<lparr>logged := logged w2 @ [(ERROR, An_error_occurred e')]\<rparr>) \<and> hub w2 = hub w"
proof (cases "hf_hub_download env")
  case (Inl e)
  then show ?thesis
    unfolding run_defs
    by (intro exI[of _ e]
        exI[of _ "w\<lparr>logged := logged w @ [(INFO, Starting_dataset_translation_process),
           (ERROR, Error_downloading_dataset e)]\<rparr>"]) simp
next
  case (Inr p)
  show ?thesis
  proof (cases "create_translator_fault env")
    case (Some e)
    with Inr assms(1) show ?thesis
      unfolding run_defs
      by (intro exI[of _ e] exI[of _ "started p w"]) (simp add: started_def)
  next
    case None
    obtain r w1 where l: "translation_loop env 0 ds [] (started p w) = (r, w1)"
      by (cases "translation_loop env 0 ds [] (started p w)")
    with assms(2)[of p _ w1] obtain e where r: "r = Inl e" by (cases r) auto
    have "hub w1 = hub w"
      using keepsD[OF keeps_hub_translation_loop, of env 0 ds "[]" "started p w"] l
      by (simp add: started_def)
    with Inr None assms(1) l r show ?thesis
      unfolding run_defs
      by (intro exI[of _ e] exI[of _ w1]) (simp add: started_def)
  qed
qed

lemma main_after_login:
  assumes "login_fault env = None"
  shows "main env w =
     (case translate_and_push_dataset env (authenticated w) of
        (Inl e, w1) \<Rightarrow> (Inl e, w1\<lparr>logged := logged w1 @ [(ERROR, Process_failed e)]\<rparr>)
      | (Inr u, w1) \<Rightarrow> (Inr u, w1))"
  using assms
  by (simp add: main_def setup_authentication_def try_except_def and_then_def logging_def
      raise_exn_def authenticated_def split: sum.splits prod.splits)

lemma run_aborted:
  assumes "login_fault env = None" "load_file env = Inr ds"
    and "\<And>p out w1. translation_loop env 0 ds [] (started p (authenticated w)) \<noteq> (Inr out, w1)"
  shows "\<exists>e' w'. main env w = (Inl e', w') \<and> hub w' = hub w \<and>
           (\<exists>l. logged w' = l @ [(ERROR, An_error_occurred e'), (ERROR, Process_failed e')]) \<and>
           exit_status (main env w) = 1"
proof -
  from translate_and_push_dataset_loop_fails[OF assms(2,3)] obtain e' w2 where
    t: "translate_and_push_dataset env (authenticated w) =
           (Inl e', w2\<lparr>logged := logged w2 @ [(ERROR, An_error_occurred e')]\<rparr>)"
    and h: "hub w2 = hub (authenticated w)"
    by blast
  have m: "main env w = (Inl e', w2\<lparr>logged := logged w2 @
      [(ERROR, An_error_occurred e'), (ERROR, Process_failed e')]\<rparr>)"
    using t by (simp add: main_after_login[OF assms(1)])
  show ?thesis
    using h by (simp add: m exit_status_def authenticated_def)
qed

lemma write_failure_aborts:
  assumes "login_fault env = None" "load_file env = Inr ds"
    and "m \<in> set (checkpoint_indices 0 (length ds))"
    and "fs_fault env (Makedirs checkpoint_dir) = Some e \<or>
         fs_fault env (Open_w (checkpoint_path m)) = Some e"
  shows "\<exists>e' w'. main env w = (Inl e', w') \<and> hub w' = hub w \<and>
           (\<exists>l. logged w' = l @ [(ERROR, An_error_occurred e'), (ERROR, Process_failed e')]) \<and>
           exit_status (main env w) = 1"
proof (rule run_aborted[OF assms(1,2)])
  fix p out w1
  show "translation_loop env 0 ds [] (started p (authenticated w)) \<noteq> (Inr out, w1)"
  proof
    assume "translation_loop env 0 ds [] (started p (authenticated w)) = (Inr out, w1)"
    from translation_loop_Inr[OF this] assms(3)
    have "\<forall>op\<in>set (save_ops env (take m out) m). fs_fault env op = None" by auto
    then have "fs_fault env (Makedirs checkpoint_dir) = None"
      "fs_fault env (Open_w (checkpoint_path m)) = None"
      by (simp_all add: save_ops_def)
    with assms(4) show False by auto
  qed
qed

lemma missing_field_aborts:
  assumes "login_fault env = None" "load_file env = Inr ds"
    and "item \<in> set ds" "k \<in> set required_fields" "getitem item k = Inl e"
  shows "\<exists>e' w'. main env w = (Inl e', w') \<and> hub w' = hub w \<and>
           (\<exists>l. logged w' = l @ [(ERROR, An_error_occurred e'), (ERROR, Process_failed e')]) \<and>
           exit_status (main env w) = 1"
proof (rule run_aborted[OF assms(1,2)])
  fix p out w1
  show "translation_loop env 0 ds [] (started p (authenticated w)) \<noteq> (Inr out, w1)"
  proof
    assume "translation_loop env 0 ds [] (started p (authenticated w)) = (Inr out, w1)"
    from translation_loop_Inr[OF this] assms(3)
    obtain u ti u' where "translated_item env item u = (Inr ti, u')" by auto
    with translated_item_missing_field[OF assms(4,5), of env u] show False by auto
  qed
qed

lemma checkpoint_files_of_run:
  assumes "load_file env = Inr ds" "translate_and_push_dataset env w = (Inr u, w')"
  shows "\<exists>out. length out = length ds \<and>
      hub w' = hub w @ [Push_to_hub ''bengali-morehopqa'' out,
                        Upload_file ''README.md'' ''bengali-morehopqa''] \<and>
      fsops w' = fsops w @
        concat (map (\<lambda>m. save_ops env (take m out) m) (checkpoint_indices 0 (length ds))) \<and>
      (\<forall>m\<in>set (checkpoint_indices 0 (length ds)).
         files w' (checkpoint_path m) = Some (concat (json_dump env (PList (take m out)))))"
proof -
  from translate_and_push_dataset_Inr[OF assms(2)] assms(1) obtain p out w1 where
    l: "translation_loop env 0 ds [] (started p w) = (Inr out, w1)" and
    h: "hub w' = hub w1 @ [Push_to_hub ''bengali-morehopqa'' out,
                             Upload_file ''README.md'' ''bengali-morehopqa'']" and
    f: "fsops w' = fsops w1" "files w' = files w1"
    by auto
  from translation_loop_Inr[OF l] obtain new where n: "out = new" "length new = length ds"
    "fsops w1 = fsops (started p w) @
        concat (map (\<lambda>m. save_ops env (take m out) m) (checkpoint_indices 0 (length ds)))"
    "hub w1 = hub (started p w)"
    by auto
  from translation_loop_files[OF l] n(3)
  have "files w1 = foldl (\<lambda>fs op. fs_apply op fs) (files (started p w))
      (concat (map (\<lambda>m. save_ops env (take m out) m) (checkpoint_indices 0 (length ds))))"
    by auto
  then have "\<forall>m\<in>set (checkpoint_indices 0 (length ds)).
         files w' (checkpoint_path m) = Some (concat (json_dump env (PList (take m out))))"
    using f(2) by (simp add: fold_saves_lookup)
  with n h f show ?thesis by (auto simp: started_def)
qed

subsection \<open>The sample runs\<close>

lemma translated_item_blank: "translated_item env blank_record w = (Inr blank_record, w)"
  by (simp add: translated_item_def blank_record_def translate_text_falsy_eq
      translate_question_decomposition_def and_then_def lift_result_def return_val_def)

lemma translation_loop_blanks:
  "idx + n < CHECKPOINT_INTERVAL \<Longrightarrow>
   translation_loop env idx (replicate n blank_record) td w =
     (Inr (td @ replicate n blank_record), w)"
proof (induction n arbitrary: idx td)
  case 0
  then show ?case by (simp add: return_val_def)
next
  case (Suc n)
  from Suc.prems have "(idx + 1) mod CHECKPOINT_INTERVAL \<noteq> 0" "idx + 1 + n < CHECKPOINT_INTERVAL"
    by simp_all
  with Suc.IH[of "idx + 1" "td @ [blank_record]"] show ?case
    by (simp add: translated_item_blank and_then_def return_val_def replicate_app_Cons_same)
qed

lemma translation_loop_append:
  "translation_loop env idx (xs @ ys) td w =
     (case translation_loop env idx xs td w of
        (Inl e, w') \<Rightarrow> (Inl e, w')
      | (Inr td', w') \<Rightarrow> translation_loop env (idx + length xs) ys td' w')"
proof (induction xs arbitrary: idx td w)
  case Nil
  then show ?case by (simp add: return_val_def)
next
  case (Cons x xs)
  show ?case
    by (simp add: Cons.IH and_then_def split: sum.splits prod.splits)
qed

lemma replicate_100: "replicate 100 x = replicate 99 x @ [x]"
proof -
  have "(100::nat) = Suc 99" by simp
  then show ?thesis by (simp only: replicate_Suc replicate_append_same)
qed

lemma mod_100: "(99 + 1) mod CHECKPOINT_INTERVAL = 0" "99 < CHECKPOINT_INTERVAL"
  by (simp_all add: CHECKPOINT_INTERVAL_def)

text \<open>The loop over a hundred blank records: the first ninety-nine leave the world as it
  is, the hundredth brings the checkpoint.\<close>

lemma translation_loop_100_blanks:
  "translation_loop env 0 (replicate 100 blank_record @ rest) [] w =
     (case save_checkpoint env (replicate 100 blank_record) 100
             (w\<lparr>logged := logged w @ [(INFO, Progress 100)]\<rparr>) of
        (Inl e, w') \<Rightarrow> (Inl e, w')
      | (Inr u, w') \<Rightarrow> translation_loop env 100 rest (replicate 100 blank_record) w')"
proof -
  have a: "translation_loop env 0 (replicate 99 blank_record) [] w =
      (Inr (replicate 99 blank_record), w)"
    using translation_loop_blanks[of 0 99 env "[]" w] mod_100 by simp
  have b: "translation_loop env 99 [blank_record] (replicate 99 blank_record) w =
     (case save_checkpoint env (replicate 99 blank_record @ [blank_record]) 100
             (w\<lparr>logged := logged w @ [(INFO, Progress 100)]\<rparr>) of
        (Inl e, w') \<Rightarrow> (Inl e, w')
      | (Inr u, w') \<Rightarrow> (Inr (replicate 99 blank_record @ [blank_record]), w'))"
    using mod_100(1)
    by (simp add: translated_item_blank and_then_def return_val_def logging_def
        split: sum.splits prod.splits)
  have c: "translation_loop env 0 (replicate 100 blank_record) [] w =
     (case save_checkpoint env (replicate 100 blank_record) 100
             (w\<lparr>logged := logged w @ [(INFO, Progress 100)]\<rparr>) of
        (Inl e, w') \<Rightarrow> (Inl e, w')
      | (Inr u, w') \<Rightarrow> (Inr (replicate 100 blank_record), w'))"
    unfolding replicate_100[of blank_record]
    by (simp add: translation_loop_append[of env 0 "replicate 99 blank_record"] a b
        del: translation_loop.simps)
  show ?thesis
    by (simp add: translation_loop_append[of env 0 "replicate 100 blank_record"] c
        split: sum.splits prod.splits)
qed

lemma translation_loop_100_blanks_only:
  "translation_loop env 0 (replicate 100 blank_record) [] w =
     (case save_checkpoint env (replicate 100 blank_record) 100
             (w\<lparr>logged := logged w @ [(INFO, Progress 100)]\<rparr>) of
        (Inl e, w') \<Rightarrow> (Inl e, w')
      | (Inr u, w') \<Rightarrow> (Inr (replicate 100 blank_record), w'))"
  using translation_loop_100_blanks[of env "[]" w]
  by (simp add: return_val_def split: sum.splits prod.splits)

lemma hundred_blank_run:
  "translate_and_push_dataset hundred_blank_env world0 =
     (Inr (),
      world0\<lparr>logged :=
          [(INFO, Starting_dataset_translation_process),
           (INFO, Dataset_downloaded_to ''with_human_verification.json''), (INFO, Progress 100),
           (INFO, Checkpoint_saved (checkpoint_path 100)),
           (INFO, Creating_Hugging_Face_dataset), (INFO, Pushing_to_Hugging_Face_Hub),
           (INFO, Dataset_successfully_pushed)],
        files := [checkpoint_path 100 \<mapsto> ''[]''],
        fsops := [Makedirs checkpoint_dir, Open_w (checkpoint_path 100),
                  Write (checkpoint_path 100) ''['', Write (checkpoint_path 100) '']''],
        hub := [Push_to_hub ''bengali-morehopqa'' (replicate 100 blank_record),
                Upload_file ''README.md'' ''bengali-morehopqa'']\<rparr>)"
  by (simp add: translate_and_push_dataset_def download_dataset_eq dataset_from_list_def hundred_blank_env_def stub_env_def world0_def
      translation_loop_100_blanks_only save_checkpoint_def save_ops_def fs_do_def
      create_translator_def push_to_hub_def upload_file_def
      try_except_def and_then_def logging_def lift_result_def return_val_def raise_exn_def)

lemma full_record_translated_world:
  "translate env = stub_translate \<Longrightarrow>
   translated_item env (PDict full_record) w =
     (Inr full_record_bn,
      w\<lparr>calls := calls w @
           [PStr ''Who is king?'', PStr ''Bob'', PStr ''Bob is king.'', PStr ''X'', PStr ''Y'',
            PStr ''Z'', PStr ''Who?''],
        slept := slept w @ replicate 7 RATE_LIMIT_DELAY\<rparr>)"
  by (simp add: translated_item_def full_record_def full_record_bn_def sub_item_q1_def
      translate_text_answered translate_text_falsy_eq translate_question_decomposition_def
      and_then_def lift_result_def return_val_def numeral_eq_Suc)

lemma replicate_100_98: "replicate 100 x = replicate 98 x @ [x, x]"
proof -
  have "(100::nat) = 98 + 2" by simp
  then have "replicate 100 x = replicate 98 x @ replicate 2 x"
    by (simp only: replicate_add)
  then show ?thesis by (simp add: numeral_2_eq_2)
qed

lemma translation_loop_resume:
  assumes "translate env = stub_translate"
  shows "translation_loop env 0 (PDict full_record # replicate 100 blank_record) [] w =
     (case save_checkpoint env (full_record_bn # replicate 99 blank_record) 100
        (w\<lparr>calls := calls w @
           [PStr ''Who is king?'', PStr ''Bob'', PStr ''Bob is king.'', PStr ''X'', PStr ''Y'',
            PStr ''Z'', PStr ''Who?''],
          slept := slept w @ replicate 7 RATE_LIMIT_DELAY,
          logged := logged w @ [(INFO, Progress 100)]\<rparr>) of
        (Inl e, w') \<Rightarrow> (Inl e, w')
      | (Inr u, w') \<Rightarrow> (Inr (full_record_bn # replicate 100 blank_record), w'))"
proof -
  let ?w1 = "w\<lparr>calls := calls w @
           [PStr ''Who is king?'', PStr ''Bob'', PStr ''Bob is king.'', PStr ''X'', PStr ''Y'',
            PStr ''Z'', PStr ''Who?''],
          slept := slept w @ replicate 7 RATE_LIMIT_DELAY\<rparr>"
  have r100: "replicate 100 blank_record = replicate 98 blank_record @ [blank_record, blank_record]"
    by (rule replicate_100_98)
  have r: "full_record_bn # replicate 98 blank_record @ [blank_record] =
      full_record_bn # replicate 99 blank_record"
    "full_record_bn # replicate 98 blank_record @ [blank_record, blank_record] =
      full_record_bn # replicate 100 blank_record"
    by (simp_all add: r100 replicate_append_same numeral_eq_Suc)
  have s1: "translation_loop env 0 (PDict full_record # replicate 100 blank_record) [] w =
      translation_loop env 1 (replicate 100 blank_record) [full_record_bn] ?w1"
    by (simp add: full_record_translated_world[OF assms] and_then_def return_val_def
        CHECKPOINT_INTERVAL_def)
  have "1 + 98 < CHECKPOINT_INTERVAL" by (simp add: CHECKPOINT_INTERVAL_def)
  from translation_loop_blanks[OF this, of env "[full_record_bn]" ?w1]
  have s2: "translation_loop env 1 (replicate 100 blank_record) [full_record_bn] ?w1 =
     translation_loop env 99 [blank_record, blank_record]
       (full_record_bn # replicate 98 blank_record) ?w1"
    unfolding r100
    by (simp add: translation_loop_append del: translation_loop.simps)
  have s3: "translation_loop env 99 [blank_record, blank_record]
       (full_record_bn # replicate 98 blank_record) ?w1 =
     (case save_checkpoint env (full_record_bn # replicate 98 blank_record @ [blank_record]) 100
        (?w1\<lparr>logged := logged w @ [(INFO, Progress 100)]\<rparr>) of
        (Inl e, w') \<Rightarrow> (Inl e, w')
      | (Inr u, w') \<Rightarrow>
          (Inr (full_record_bn # replicate 98 blank_record @ [blank_record, blank_record]), w'))"
    by (simp add: translated_item_blank and_then_def return_val_def logging_def
        CHECKPOINT_INTERVAL_def split: sum.splits prod.splits)
  show ?thesis
    unfolding s1 s2 s3 r by simp
qed

lemma translated_item_no_answer:
  "translated_item env no_answer_record w = (Inl (KeyError ''answer''), w)"
  by (simp add: translated_item_def no_answer_record_def translate_text_falsy_eq
      and_then_def lift_result_def return_val_def)

lemma bad_second_run:
  "main bad_second_env world0 =
     (Inl (KeyError ''answer''),
      world0\<lparr>logged :=
        [(INFO, Successfully_authenticated), (INFO, Starting_dataset_translation_process),
         (INFO, Dataset_downloaded_to ''with_human_verification.json''),
         (ERROR, An_error_occurred (KeyError ''answer'')),
         (ERROR, Process_failed (KeyError ''answer''))]\<rparr>)"
  by (simp add: main_def setup_authentication_def translate_and_push_dataset_def
      download_dataset_eq dataset_from_list_def
      bad_second_env_def stub_env_def world0_def translated_item_blank CHECKPOINT_INTERVAL_def
      translated_item_no_answer create_translator_def
      try_except_def and_then_def logging_def lift_result_def return_val_def raise_exn_def)

lemma bad_first_run:
  "main bad_first_env world0 =
     (Inl (KeyError ''answer''),
      world0\<lparr>logged :=
        [(INFO, Successfully_authenticated), (INFO, Starting_dataset_translation_process),
         (INFO, Dataset_downloaded_to ''with_human_verification.json''),
         (ERROR, An_error_occurred (KeyError ''answer'')),
         (ERROR, Process_failed (KeyError ''answer''))]\<rparr>)"
  by (simp add: main_def setup_authentication_def translate_and_push_dataset_def
      download_dataset_eq dataset_from_list_def
      bad_first_env_def stub_env_def world0_def translated_item_no_answer create_translator_def
      try_except_def and_then_def logging_def lift_result_def return_val_def raise_exn_def)

subsection \<open>Checkpoints of a run\<close>



subsection \<open>Errors that end the run\<close>







section \<open>Restart: the run never reads a checkpoint\<close>

lemma agreesD:
  "agrees R m \<Longrightarrow> R w1 w2 \<Longrightarrow> fst (m w1) = fst (m w2) \<and> R (snd (m w1)) (snd (m w2))"
  by (simp add: agrees_def)

lemma agrees_return: "agrees R (return_val x)"
  and agrees_raise: "agrees R (raise_exn e)"
  and agrees_lift: "agrees R (lift_result r)"
  by (simp_all add: agrees_def return_val_def raise_exn_def lift_result_def)

lemma agrees_and_then:
  assumes "agrees R m" "\<And>x. agrees R (g x)"
  shows "agrees R (and_then m g)"
  unfolding agrees_def
proof (intro allI impI)
  fix w1 w2 assume s: "R w1 w2"
  note m = agreesD[OF assms(1) s]
  show "fst (and_then m g w1) = fst (and_then m g w2) \<and>
      R (snd (and_then m g w1)) (snd (and_then m g w2))"
  proof (cases "fst (m w1)")
    case (Inl e)
    with m show ?thesis
      by (cases "m w1"; cases "m w2") (auto simp: and_then_def)
  next
    case (Inr x)
    with m agreesD[OF assms(2)[of x], of "snd (m w1)" "snd (m w2)"] show ?thesis
      by (cases "m w1"; cases "m w2") (auto simp: and_then_def)
  qed
qed

lemma agrees_try_except:
  assumes "agrees R m" "\<And>e. agrees R (h e)"
  shows "agrees R (try_except m h)"
  unfolding agrees_def
proof (intro allI impI)
  fix w1 w2 assume s: "R w1 w2"
  note m = agreesD[OF assms(1) s]
  show "fst (try_except m h w1) = fst (try_except m h w2) \<and>
      R (snd (try_except m h w1)) (snd (try_except m h w2))"
  proof (cases "fst (m w1)")
    case (Inl e)
    with m agreesD[OF assms(2)[of e], of "snd (m w1)" "snd (m w2)"] show ?thesis
      by (cases "m w1"; cases "m w2") (auto simp: try_except_def)
  next
    case (Inr x)
    with m show ?thesis
      by (cases "m w1"; cases "m w2") (auto simp: try_except_def)
  qed
qed

lemma agrees_if:
  "(c \<Longrightarrow> agrees R a) \<Longrightarrow> (\<not> c \<Longrightarrow> agrees R b) \<Longrightarrow> agrees R (if c then a else b)"
  by simp

lemma agrees_effects:
  assumes "effects_agree R env"
  shows "agrees R (logging l m)" "agrees R (time_sleep d)"
    "agrees R (translator_translate env t)" "agrees R (fs_do env op)"
    "agrees R (push_to_hub env repo data)" "agrees R (upload_file env p repo)"
  using assms by (simp_all add: effects_agree_def)

lemmas agrees_rules = agrees_return agrees_raise agrees_lift agrees_and_then
  agrees_try_except agrees_if

lemma agrees_translate_attempts:
  "effects_agree R env \<Longrightarrow> agrees R (translate_attempts env t attempt)"
proof (induction env t attempt rule: translate_attempts.induct)
  case (1 env t attempt)
  note e = agrees_effects[OF 1(2)]
  show ?case
    by (subst translate_attempts.simps) (intro agrees_rules e 1(1) 1(2); assumption)
qed

lemma agrees_translate_text:
  "effects_agree R env \<Longrightarrow> agrees R (translate_text env t)"
  unfolding translate_text_def by (intro agrees_rules agrees_translate_attempts)

lemma agrees_decomposition_items:
  "(\<And>v. agrees R (tt v)) \<Longrightarrow> agrees R (decomposition_items tt items acc)"
proof (induction items arbitrary: acc)
  case Nil
  show ?case by (simp add: agrees_return)
next
  case (Cons item items)
  show ?case
    unfolding decomposition_items.simps
    by (intro agrees_rules Cons)
qed

lemma agrees_translate_question_decomposition:
  "effects_agree R env \<Longrightarrow> agrees R (translate_question_decomposition env v)"
  unfolding translate_question_decomposition_def
  by (intro agrees_rules agrees_decomposition_items agrees_translate_text)

lemma agrees_translated_item:
  "effects_agree R env \<Longrightarrow> agrees R (translated_item env item)"
  unfolding translated_item_def
  by (intro agrees_rules agrees_translate_text agrees_translate_question_decomposition)

lemma agrees_fs_do_all: "effects_agree R env \<Longrightarrow> agrees R (fs_do_all env ops)"
  by (induction ops) (auto intro!: agrees_rules agrees_effects)

lemma agrees_save_checkpoint:
  "effects_agree R env \<Longrightarrow> agrees R (save_checkpoint env data n)"
  unfolding save_checkpoint_def by (intro agrees_rules agrees_fs_do_all agrees_effects)

lemma agrees_translation_loop:
  "effects_agree R env \<Longrightarrow> agrees R (translation_loop env idx ds td)"
proof (induction ds arbitrary: idx td)
  case Nil
  show ?case by (simp add: agrees_return)
next
  case (Cons item ds)
  note e = agrees_effects[OF Cons.prems]
  show ?case
    unfolding translation_loop.simps
    by (intro agrees_rules agrees_translated_item agrees_save_checkpoint e Cons)
qed

lemma agrees_translate_and_push_dataset:
  assumes "effects_agree R env"
  shows "agrees R (translate_and_push_dataset env)"
proof -
  note e = agrees_effects[OF assms]
  have c: "agrees R (create_translator env)"
    unfolding create_translator_def by (auto split: option.splits intro: agrees_rules)
  have f: "agrees R (dataset_from_list env data)" for data
    unfolding dataset_from_list_def by (auto split: option.splits intro: agrees_rules)
  have d: "agrees R (download_dataset env)"
    unfolding download_dataset_def by (intro agrees_rules e)
  show ?thesis
    unfolding translate_and_push_dataset_def
    by (intro agrees_rules agrees_translation_loop e c f d assms)
qed

lemma effects_agree_same_but_files: "effects_agree same_but_files env"
  by (simp add: effects_agree_def agrees_def same_but_files_def logging_def time_sleep_def
      translator_translate_def fs_do_def push_to_hub_def upload_file_def
      split: option.splits)

lemma effects_agree_same_since:
  assumes "\<forall>h h' t. translate env h t = translate env h' t"
  shows "effects_agree (same_since a b) env"
proof -
  have t: "translate env (calls w1) t = translate env (calls w2) t" for w1 w2 t
    using assms by blast
  show ?thesis
    unfolding effects_agree_def agrees_def same_since_def logging_def time_sleep_def
      translator_translate_def fs_do_def push_to_hub_def upload_file_def
    by (auto simp: t split: option.splits)
qed

lemma same_since_refl: "same_since a b a b"
  by (simp add: same_since_def)

text \<open>
  Claim C1, as amended. The scripts have no load operation and never read a checkpoint:
  \<^verbatim>\<open>translate_and_push_dataset\<close> starts from the empty list at index 0 whatever files exist.
  Started with any other content \<open>fs\<close> of the disk, the run has the same outcome and makes
  the same calls of the service, the same log, the same file operations and the same push as
  started from \<open>w\<close>: a checkpoint left by an earlier run changes nothing, every record is
  translated again. When moreover the answer of the service to a text does not depend on
  the calls made before, a run started in any world \<open>w1\<close> (after an interrupted run, say) has
  the same outcome, makes the same new calls and file operations and pushes the same
  collection as a run started in any other world \<open>w2\<close>.
\<close>

theorem run_ignores_checkpoints:
  "(fst (translate_and_push_dataset env (w\<lparr>files := fs\<rparr>)) =
      fst (translate_and_push_dataset env w) \<and>
    calls (snd (translate_and_push_dataset env (w\<lparr>files := fs\<rparr>))) =
      calls (snd (translate_and_push_dataset env w)) \<and>
    logged (snd (translate_and_push_dataset env (w\<lparr>files := fs\<rparr>))) =
      logged (snd (translate_and_push_dataset env w)) \<and>
    fsops (snd (translate_and_push_dataset env (w\<lparr>files := fs\<rparr>))) =
      fsops (snd (translate_and_push_dataset env w)) \<and>
    hub (snd (translate_and_push_dataset env (w\<lparr>files := fs\<rparr>))) =
      hub (snd (translate_and_push_dataset env w))) \<and>
   ((\<forall>h h' t. translate env h t = translate env h' t) \<longrightarrow>
      fst (translate_and_push_dataset env w1) = fst (translate_and_push_dataset env w2) \<and>
      (\<exists>c. calls (snd (translate_and_push_dataset env w1)) = calls w1 @ c \<and>
           calls (snd (translate_and_push_dataset env w2)) = calls w2 @ c) \<and>
      (\<exists>f. fsops (snd (translate_and_push_dataset env w1)) = fsops w1 @ f \<and>
           fsops (snd (translate_and_push_dataset env w2)) = fsops w2 @ f) \<and>
      (\<exists>h. hub (snd (translate_and_push_dataset env w1)) = hub w1 @ h \<and>
           hub (snd (translate_and_push_dataset env w2)) = hub w2 @ h))"
proof (intro conjI impI)
  have "same_but_files (w\<lparr>files := fs\<rparr>) w" by (simp add: same_but_files_def)
  from agreesD[OF agrees_translate_and_push_dataset[OF effects_agree_same_but_files] this, of env]
  show "fst (translate_and_push_dataset env (w\<lparr>files := fs\<rparr>)) =
      fst (translate_and_push_dataset env w)"
    "calls (snd (translate_and_push_dataset env (w\<lparr>files := fs\<rparr>))) =
      calls (snd (translate_and_push_dataset env w))"
    "logged (snd (translate_and_push_dataset env (w\<lparr>files := fs\<rparr>))) =
      logged (snd (translate_and_push_dataset env w))"
    "fsops (snd (translate_and_push_dataset env (w\<lparr>files := fs\<rparr>))) =
      fsops (snd (translate_and_push_dataset env w))"
    "hub (snd (translate_and_push_dataset env (w\<lparr>files := fs\<rparr>))) =
      hub (snd (translate_and_push_dataset env w))"
    by (simp_all add: same_but_files_def)
next
  assume "\<forall>h h' t. translate env h t = translate env h' t"
  from agreesD[OF agrees_translate_and_push_dataset[OF effects_agree_same_since[OF this]]
      same_since_refl, of w1 w2]
  have r: "fst (translate_and_push_dataset env w1) = fst (translate_and_push_dataset env w2)"
    and s: "same_since w1 w2 (snd (translate_and_push_dataset env w1))
        (snd (translate_and_push_dataset env w2))"
    by simp_all
  show "fst (translate_and_push_dataset env w1) = fst (translate_and_push_dataset env w2)"
    by (rule r)
  show "\<exists>c. calls (snd (translate_and_push_dataset env w1)) = calls w1 @ c \<and>
           calls (snd (translate_and_push_dataset env w2)) = calls w2 @ c"
    using s unfolding same_since_def by blast
  show "\<exists>f. fsops (snd (translate_and_push_dataset env w1)) = fsops w1 @ f \<and>
           fsops (snd (translate_and_push_dataset env w2)) = fsops w2 @ f"
    using s unfolding same_since_def by blast
  show "\<exists>h. hub (snd (translate_and_push_dataset env w1)) = hub w1 @ h \<and>
           hub (snd (translate_and_push_dataset env w2)) = hub w2 @ h"
    using s unfolding same_since_def by blast
qed

theorem run_ignores_checkpoints_witness:
  "(\<forall>h h' t. translate resume_env h t = translate resume_env h' t) \<and>
   fst (translate_and_push_dataset resume_env checkpointed_world) =
     fst (translate_and_push_dataset resume_env world0) \<and>
   hub (snd (translate_and_push_dataset resume_env checkpointed_world)) =
     hub (snd (translate_and_push_dataset resume_env world0))"
proof -
  have h: "\<forall>h h' t. translate resume_env h t = translate resume_env h' t"
    by (simp add: resume_env_def stub_env_def stub_translate_def)
  from run_ignores_checkpoints[of resume_env _ _ checkpointed_world world0] h
  show ?thesis by (auto simp: checkpointed_world_def world0_def)
qed

theorem restart_translates_from_index_0:
  "files checkpointed_world (checkpoint_path 100) = Some ''[]'' \<and>
   load_file resume_env = Inr (PDict full_record # replicate 100 blank_record) \<and>
   fst (translate_and_push_dataset resume_env checkpointed_world) = Inr () \<and>
   calls (snd (translate_and_push_dataset resume_env checkpointed_world)) =
     [PStr ''Who is king?'', PStr ''Bob'', PStr ''Bob is king.'', PStr ''X'', PStr ''Y'',
      PStr ''Z'', PStr ''Who?''] \<and>
   hub (snd (translate_and_push_dataset resume_env checkpointed_world)) =
     [Push_to_hub ''bengali-morehopqa'' (full_record_bn # replicate 100 blank_record),
      Upload_file ''README.md'' ''bengali-morehopqa'']"
proof -
  have t: "translate resume_env = stub_translate" by (simp add: resume_env_def stub_env_def)
  have e: "load_file resume_env = Inr (PDict full_record # replicate 100 blank_record)"
    "create_translator_fault resume_env = None" "push_fault resume_env = None"
    "upload_fault resume_env = None" "fs_fault resume_env = (\<lambda>op. None)"
    "hf_hub_download resume_env = Inr ''with_human_verification.json''"
    "from_list_fault resume_env = None"
    "json_dump resume_env = (\<lambda>v. [''['', '']''])"
    by (simp_all add: resume_env_def stub_env_def)
  show ?thesis
    by (simp add: translate_and_push_dataset_def download_dataset_eq dataset_from_list_def translation_loop_resume[OF t] e
      checkpointed_world_def world0_def
      save_checkpoint_def save_ops_def fs_do_def
      create_translator_def push_to_hub_def upload_file_def
      try_except_def and_then_def logging_def lift_result_def return_val_def raise_exn_def
      del: translation_loop.simps)
qed

end
